theory Spec2Isabelle
  imports Complex_Main "HOL-Library.Word"
begin

section \<open>The document and the script's state\<close>

text \<open>
  The script of \<^verbatim>\<open>websiteV3/js/main.js\<close> is view glue over an already rendered
  document: every handler reads and writes DOM elements, local storage and a few variables
  captured in closures. The model is an explicit store. A node is the address of an element;
  nodes \<open>0 ..< node_count\<close> are the elements of the document, in document order. Two
  references of the script may name the same node, so aliasing is whatever the store says.

  JavaScript numbers are doubles. An integer the script computes with is modelled by its
  exact value, which a double holds up to \<open>2^53\<close>; where the script can leave that range
  (\<^verbatim>\<open>parseInt\<close> of a long run of digits, \<^verbatim>\<open>count++\<close> at \<open>2^53\<close>) the rounding of the
  double is written out. The percentage of the preloader is a rational.

  A JavaScript string is a sequence of UTF-16 code units. The values that come from the
  document or from storage (attribute values, stored items) are such strings. The names the
  script writes literally (attribute names, class tokens, style properties, storage keys) and
  the decimal text of a counter are plain ASCII strings.
\<close>

type_synonym node = nat

type_synonym code_unit = "16 word"

type_synonym jsstring = "code_unit list"

text \<open>An ASCII literal of the script as a JavaScript string.\<close>

definition js :: "string \<Rightarrow> jsstring" where
  "js s = map (\<lambda>c. word_of_nat (of_char c)) s"

datatype css_value = Percent rat | Keyword string

record element =
  attrs :: "string \<Rightarrow> jsstring option"
  classList :: "string list"
  style :: "string \<Rightarrow> css_value option"
  textContent :: string
  checked :: bool
  offsetTop :: int
  offsetHeight :: int
  complete :: bool

text \<open>
  The result of \<^verbatim>\<open>parseInt\<close>, and of the arithmetic done on it: not a number, an
  infinity (the quotient \<^verbatim>\<open>2000 / 0\<close>, or a run of digits too long for a double), negative
  zero (\<^verbatim>\<open>parseInt("-0")\<close>), or an integer that a double holds.
\<close>

datatype jsnum = NaN | PosInfinity | NegInfinity | NegZero | Num int

datatype js_error = TypeError | SyntaxError

text \<open>
  An interval timer created by \<^verbatim>\<open>setInterval\<close> in \<^verbatim>\<open>animateCounters\<close>, with the variables
  its callback closes over: the counter element, \<^verbatim>\<open>target\<close> and \<^verbatim>\<open>count\<close>. The timer's
  identifier is its index in the list of timers.
\<close>

record timer =
  owner :: node
  target :: jsnum
  count :: nat
  delay :: jsnum
  cleared :: bool

record page =
  elems :: "node \<Rightarrow> element"
  node_count :: nat
  localStorage :: "string \<Rightarrow> jsstring option"
  scrollY :: rat
  innerHeight :: int
  rect_top :: "node \<Rightarrow> rat"
  loadedCount :: nat
  img_listeners :: "node list"
  timeouts :: nat
  intervals :: "timer list"

text \<open>
  The element references the script captures when it is loaded (lines 1 to 13), together
  with \<^verbatim>\<open>document.body\<close>, \<^verbatim>\<open>document.documentElement\<close>, \<^verbatim>\<open>document.images\<close> and the
  \<^verbatim>\<open>section[id]\<close> elements of \<^verbatim>\<open>activeNavigation\<close>. The script uses the single references
  without a null check, so they are nodes here.

  The last field is \<^verbatim>\<open>document.querySelector\<close>. How a selector text is read is the
  browser's business (the grammar of CSS selectors, its strings and escapes): the method is
  taken as it comes, a function of the page and the selector text that returns an element or
  \<^verbatim>\<open>null\<close>, or throws.
\<close>

record refs =
  loader :: node
  progress :: node
  header :: node
  mobileMenuBtn :: node
  hamburger :: node
  navLinks :: node
  navLinksItems :: "node list"
  themeToggle :: node
  tabBtns :: "node list"
  tabPanes :: "node list"
  backToTopBtn :: node
  counterItems :: "node list"
  scrollLinks :: "node list"
  body :: node
  documentElement :: node
  images :: "node list"
  sections :: "node list"
  querySelector :: "page \<Rightarrow> jsstring \<Rightarrow> js_error + node option"

subsection \<open>Element operations\<close>

definition update_element :: "node \<Rightarrow> (element \<Rightarrow> element) \<Rightarrow> page \<Rightarrow> page" where
  "update_element n f s = s\<lparr>elems := (elems s)(n := f (elems s n))\<rparr>"

text \<open>A class list is an ordered set of tokens (\<^verbatim>\<open>DOMTokenList\<close>).\<close>

definition token_add :: "string \<Rightarrow> string list \<Rightarrow> string list" where
  "token_add c cs = (if c \<in> set cs then cs else cs @ [c])"

definition token_remove :: "string \<Rightarrow> string list \<Rightarrow> string list" where
  "token_remove c cs = filter (\<lambda>x. x \<noteq> c) cs"

definition token_toggle :: "string \<Rightarrow> string list \<Rightarrow> string list" where
  "token_toggle c cs = (if c \<in> set cs then token_remove c cs else cs @ [c])"

definition classList_add :: "node \<Rightarrow> string \<Rightarrow> page \<Rightarrow> page" where
  "classList_add n c = update_element n (\<lambda>e. e\<lparr>classList := token_add c (classList e)\<rparr>)"

definition classList_remove :: "node \<Rightarrow> string \<Rightarrow> page \<Rightarrow> page" where
  "classList_remove n c = update_element n (\<lambda>e. e\<lparr>classList := token_remove c (classList e)\<rparr>)"

definition classList_toggle :: "node \<Rightarrow> string \<Rightarrow> page \<Rightarrow> page" where
  "classList_toggle n c = update_element n (\<lambda>e. e\<lparr>classList := token_toggle c (classList e)\<rparr>)"

definition classList_contains :: "page \<Rightarrow> node \<Rightarrow> string \<Rightarrow> bool" where
  "classList_contains s n c = (c \<in> set (classList (elems s n)))"

definition getAttribute :: "page \<Rightarrow> node \<Rightarrow> string \<Rightarrow> jsstring option" where
  "getAttribute s n a = attrs (elems s n) a"

definition setAttribute :: "node \<Rightarrow> string \<Rightarrow> jsstring \<Rightarrow> page \<Rightarrow> page" where
  "setAttribute n a v = update_element n (\<lambda>e. e\<lparr>attrs := (attrs e)(a \<mapsto> v)\<rparr>)"

definition set_style :: "node \<Rightarrow> string \<Rightarrow> css_value \<Rightarrow> page \<Rightarrow> page" where
  "set_style n p v = update_element n (\<lambda>e. e\<lparr>style := (style e)(p \<mapsto> v)\<rparr>)"

definition set_textContent :: "node \<Rightarrow> string \<Rightarrow> page \<Rightarrow> page" where
  "set_textContent n t = update_element n (\<lambda>e. e\<lparr>textContent := t\<rparr>)"

definition set_checked :: "node \<Rightarrow> bool \<Rightarrow> page \<Rightarrow> page" where
  "set_checked n b = update_element n (\<lambda>e. e\<lparr>checked := b\<rparr>)"

definition setItem :: "string \<Rightarrow> jsstring \<Rightarrow> page \<Rightarrow> page" where
  "setItem k v s = s\<lparr>localStorage := (localStorage s)(k \<mapsto> v)\<rparr>"

section \<open>Mobile menu\<close>

text \<open>The click listener of the menu button (lines 68 to 72).\<close>

definition mobileMenuBtn_click :: "refs \<Rightarrow> page \<Rightarrow> page" where
  "mobileMenuBtn_click r s =
     classList_toggle (body r) ''menu-open''
       (classList_toggle (navLinks r) ''active''
         (classList_toggle (hamburger r) ''active'' s))"

text \<open>The click listener of every navigation link (lines 76 to 80).\<close>

definition navLink_click :: "refs \<Rightarrow> page \<Rightarrow> page" where
  "navLink_click r s =
     classList_remove (body r) ''menu-open''
       (classList_remove (navLinks r) ''active''
         (classList_remove (hamburger r) ''active'' s))"

section \<open>Theme switcher\<close>

text \<open>\<^verbatim>\<open>toggleTheme\<close> (lines 93 to 97), the change listener of the theme control.\<close>

definition toggleTheme :: "refs \<Rightarrow> page \<Rightarrow> page" where
  "toggleTheme r s =
     (let isDarkMode = checked (elems s (themeToggle r));
          theme = (if isDarkMode then js ''dark'' else js ''light'')
      in setItem ''theme'' theme (setAttribute (documentElement r) ''data-theme'' theme s))"

text \<open>
  \<^verbatim>\<open>themeSwitcher.init\<close> (lines 99 to 107). \<^verbatim>\<open>getItem('theme') || 'dark'\<close> takes the
  default when the key is absent and when the stored string is empty.
\<close>

definition savedTheme :: "page \<Rightarrow> jsstring" where
  "savedTheme s =
     (case localStorage s ''theme'' of
        None \<Rightarrow> js ''dark''
      | Some v \<Rightarrow> if v = [] then js ''dark'' else v)"

definition themeSwitcher_init :: "refs \<Rightarrow> page \<Rightarrow> page" where
  "themeSwitcher_init r s =
     set_checked (themeToggle r) (savedTheme s = js ''dark'')
       (setAttribute (documentElement r) ''data-theme'' (savedTheme s) s)"

text \<open>
  A reload parses the document again and keeps local storage: the page \<open>fresh\<close> with the
  storage of the page that was left.
\<close>

definition reload :: "page \<Rightarrow> page \<Rightarrow> page" where
  "reload fresh s = fresh\<lparr>localStorage := localStorage s\<rparr>"

section \<open>Preloader\<close>

text \<open>
  \<^verbatim>\<open>totalItems\<close> (line 17) is computed once, from the images of the document the script
  was loaded in; \<^verbatim>\<open>init\<close> walks the same collection.
\<close>

definition totalItems :: "refs \<Rightarrow> nat" where
  "totalItems r = length (images r) + 2"

text \<open>
  \<^verbatim>\<open>increment\<close> (lines 19 to 32). The field \<open>timeouts\<close> counts the calls of
  \<^verbatim>\<open>setTimeout\<close>.
\<close>

definition increment :: "refs \<Rightarrow> page \<Rightarrow> page" where
  "increment r s =
     (let s1 = s\<lparr>loadedCount := loadedCount s + 1\<rparr>;
          percentage = (of_nat (loadedCount s1) / of_nat (totalItems r)) * 100;
          s2 = set_style (progress r) ''width'' (Percent percentage) s1
      in if loadedCount s2 \<ge> totalItems r then s2\<lparr>timeouts := timeouts s2 + 1\<rparr> else s2)"

text \<open>
  The callback of the timeout (lines 26 to 29). \<^verbatim>\<open>AOS.refresh()\<close> is a call into an
  external library and leaves the state of the model as it is.
\<close>

definition loaded_timeout :: "refs \<Rightarrow> page \<Rightarrow> page" where
  "loaded_timeout r s =
     set_style (body r) ''overflow'' (Keyword ''visible'')
       (classList_add (loader r) ''fade-out'' s)"

text \<open>
  The body of the loop over the images (lines 41 to 46): a complete image is counted at
  once, another one gets \<^verbatim>\<open>increment\<close> as its load and its error listener.
\<close>

definition count_image :: "refs \<Rightarrow> node \<Rightarrow> page \<Rightarrow> page" where
  "count_image r img s =
     (if complete (elems s img) then increment r s
      else s\<lparr>img_listeners := img_listeners s @ [img]\<rparr>)"

text \<open>Lines 39 to 51.\<close>

definition count_images :: "refs \<Rightarrow> page \<Rightarrow> page" where
  "count_images r s =
     (if length (images r) > 0 then fold (count_image r) (images r) s
      else increment r (increment r s))"

text \<open>\<^verbatim>\<open>preloader.init\<close> (lines 34 to 56).\<close>

definition preloader_init :: "refs \<Rightarrow> page \<Rightarrow> page" where
  "preloader_init r s =
     increment r (increment r
       (count_images r (set_style (progress r) ''width'' (Percent 0) s)))"

text \<open>
  An image that was not complete settles: the browser dispatches its load or its error
  event, and either listener is \<^verbatim>\<open>increment\<close>.
\<close>

definition image_event :: "refs \<Rightarrow> node \<Rightarrow> page \<Rightarrow> page" where
  "image_event r img s = (if img \<in> set (img_listeners s) then increment r s else s)"

section \<open>Scroll effects\<close>

subsection \<open>Numbers and strings of the counter\<close>

text \<open>
  The white space \<^verbatim>\<open>parseInt\<close> strips: the white space and line terminator code points of
  ECMAScript (tab, line feed, vertical tab, form feed, carriage return, space, no-break space,
  the other space separators of Unicode, line and paragraph separator, and the byte order
  mark).
\<close>

definition is_whitespace :: "code_unit \<Rightarrow> bool" where
  "is_whitespace u =
     (u \<in> set [0x0009, 0x000A, 0x000B, 0x000C, 0x000D, 0x0020, 0x00A0, 0x1680, 0x2028, 0x2029,
                0x202F, 0x205F, 0x3000, 0xFEFF] \<or> (0x2000 \<le> u \<and> u \<le> 0x200A))"

definition digit_of :: "code_unit \<Rightarrow> int option" where
  "digit_of u =
     (let k = uint u
      in if 48 \<le> k \<and> k \<le> 57 then Some (k - 48)
         else if 97 \<le> k \<and> k \<le> 122 then Some (k - 87)
         else if 65 \<le> k \<and> k \<le> 90 then Some (k - 55)
         else None)"

definition is_digit :: "int \<Rightarrow> code_unit \<Rightarrow> bool" where
  "is_digit radix u = (case digit_of u of None \<Rightarrow> False | Some d \<Rightarrow> d < radix)"

definition digits_value :: "int \<Rightarrow> jsstring \<Rightarrow> int" where
  "digits_value radix ds =
     foldl (\<lambda>a u. case digit_of u of None \<Rightarrow> a | Some d \<Rightarrow> a * radix + d) 0 ds"

text \<open>The number of binary digits of a positive integer.\<close>

function bit_length :: "int \<Rightarrow> nat" where
  "bit_length n = (if n \<le> 0 then 0 else Suc (bit_length (n div 2)))"
  by pat_completeness auto
termination
  by (relation "measure nat") auto

declare bit_length.simps [simp del]

text \<open>
  The double nearest to a non-negative integer, ties to the even significand of 53 bits;
  none when the integer rounds beyond the largest double.
\<close>

definition to_double :: "int \<Rightarrow> int option" where
  "to_double n =
     (if n < 2 ^ 53 then Some n
      else let p = 2 ^ (bit_length n - 53);
               q = n div p;
               r = n mod p;
               q' = (if p < 2 * r \<or> (p = 2 * r \<and> odd q) then q + 1 else q)
           in if q' * p < 2 ^ 1024 then Some (q' * p) else None)"

text \<open>
  \<^verbatim>\<open>parseInt(string)\<close> with no radix, as ECMAScript defines it: leading white space is
  dropped, then a sign, then a \<^verbatim>\<open>0x\<close> prefix (which selects radix 16); the value is that of
  the longest run of digits that follows, as a double, and not a number when there is none.
  (For more than 20 decimal digits ECMAScript lets an implementation approximate; the common
  engines round to the nearest double, as here.)
\<close>

definition parseInt :: "jsstring \<Rightarrow> jsnum" where
  "parseInt str =
     (let s1 = dropWhile is_whitespace str;
          negative = (s1 \<noteq> [] \<and> hd s1 = 0x2D);
          s2 = (if s1 \<noteq> [] \<and> (hd s1 = 0x2B \<or> hd s1 = 0x2D) then tl s1 else s1);
          hex = (take 2 s2 = js ''0x'' \<or> take 2 s2 = js ''0X'');
          radix = (if hex then 16 else 10);
          s3 = (if hex then drop 2 s2 else s2);
          z = takeWhile (is_digit radix) s3
      in if z = [] then NaN
         else if digits_value radix z = 0 then (if negative then NegZero else Num 0)
         else case to_double (digits_value radix z) of
                None \<Rightarrow> (if negative then NegInfinity else PosInfinity)
              | Some d \<Rightarrow> (if negative then Num (- d) else Num d))"

text \<open>An attribute that is absent reads as \<^verbatim>\<open>null\<close>, which converts to the string \<^verbatim>\<open>null\<close>.\<close>

definition string_of_attr :: "jsstring option \<Rightarrow> jsstring" where
  "string_of_attr a = (case a of None \<Rightarrow> js ''null'' | Some v \<Rightarrow> v)"

text \<open>
  \<^verbatim>\<open>Math.max(Math.floor(2000 / target), 10)\<close>, the delay handed to \<^verbatim>\<open>setInterval\<close>
  (lines 169, 170 and 179). \<^verbatim>\<open>2000 / 0\<close> is positive infinity, \<^verbatim>\<open>2000 / -0\<close> is negative
  infinity (and 10 is the larger), and 2000 divided by an infinity is a zero. For an integer
  target other than zero the floor of the double quotient is the integer quotient rounded
  down.
\<close>

definition interval_delay :: "jsnum \<Rightarrow> jsnum" where
  "interval_delay t =
     (case t of
        NaN \<Rightarrow> NaN
      | PosInfinity \<Rightarrow> Num 10
      | NegInfinity \<Rightarrow> Num 10
      | NegZero \<Rightarrow> Num 10
      | Num k \<Rightarrow> if k = 0 then PosInfinity else Num (max (2000 div k) 10))"

text \<open>The comparison \<^verbatim>\<open>count >= target\<close> of line 176; it is false when the target is not a number.\<close>

definition js_ge :: "nat \<Rightarrow> jsnum \<Rightarrow> bool" where
  "js_ge c t =
     (case t of
        NaN \<Rightarrow> False
      | PosInfinity \<Rightarrow> False
      | NegInfinity \<Rightarrow> True
      | NegZero \<Rightarrow> True
      | Num k \<Rightarrow> int c \<ge> k)"

text \<open>
  \<^verbatim>\<open>count++\<close> on a double that holds a non-negative integer: up to \<open>2^53\<close> the successor is
  exact; \<open>2^53 + 1\<close> is no double and rounds back to \<open>2^53\<close>, where the count stays.
\<close>

definition js_succ :: "nat \<Rightarrow> nat" where
  "js_succ c = (if int c < 2 ^ 53 then Suc c else c)"

definition digit_char :: "nat \<Rightarrow> char" where
  "digit_char d = ''0123456789'' ! d"

text \<open>The string a non-negative integer converts to when it is assigned to \<^verbatim>\<open>textContent\<close>.\<close>

fun decimal :: "nat \<Rightarrow> string" where
  "decimal n = (if n < 10 then [digit_char n] else decimal (n div 10) @ [digit_char (n mod 10)])"

declare decimal.simps [simp del]

subsection \<open>Counters\<close>

text \<open>
  The body of the \<^verbatim>\<open>if\<close> of \<^verbatim>\<open>animateCounters\<close> (lines 165 to 179): the element is marked
  and a new interval timer is created.
\<close>

definition start_counter :: "node \<Rightarrow> page \<Rightarrow> page" where
  "start_counter c s =
     (let s1 = classList_add c ''animated'' s;
          tgt = parseInt (string_of_attr (getAttribute s1 c ''data-target''))
      in s1\<lparr>intervals := intervals s1 @
            [\<lparr>owner = c, target = tgt, count = 0, delay = interval_delay tgt, cleared = False\<rparr>]\<rparr>)"

definition animateCounter :: "node \<Rightarrow> page \<Rightarrow> page" where
  "animateCounter c s =
     (if rect_top s c < of_int (innerHeight s) \<and> \<not> classList_contains s c ''animated''
      then start_counter c s else s)"

text \<open>\<^verbatim>\<open>animateCounters\<close> (lines 159 to 182).\<close>

definition animateCounters :: "refs \<Rightarrow> page \<Rightarrow> page" where
  "animateCounters r s = fold animateCounter (counterItems r) s"

text \<open>\<^verbatim>\<open>handleScroll\<close> (lines 118 to 137).\<close>

definition handleScroll :: "refs \<Rightarrow> page \<Rightarrow> page" where
  "handleScroll r s =
     (let scrollPosition = scrollY s;
          s1 = (if scrollPosition > 50 then classList_add (header r) ''scrolled'' s
                else classList_remove (header r) ''scrolled'' s);
          s2 = (if scrollPosition > 500 then classList_add (backToTopBtn r) ''active'' s1
                else classList_remove (backToTopBtn r) ''active'' s1)
      in animateCounters r s2)"

text \<open>
  Between two scroll events the window changes: the scroll offset, the height of the
  viewport and the place of every element in it.
\<close>

record viewport =
  vp_scrollY :: rat
  vp_innerHeight :: int
  vp_rect_top :: "node \<Rightarrow> rat"

definition scroll_event :: "refs \<Rightarrow> viewport \<Rightarrow> page \<Rightarrow> page" where
  "scroll_event r v s =
     handleScroll r
       (s\<lparr>scrollY := vp_scrollY v, innerHeight := vp_innerHeight v, rect_top := vp_rect_top v\<rparr>)"

text \<open>
  The callback of the interval (lines 173 to 178) for the timer \<open>i\<close>. \<^verbatim>\<open>clearInterval\<close>
  marks the timer as cleared.
\<close>

definition counter_tick :: "nat \<Rightarrow> page \<Rightarrow> page" where
  "counter_tick i s =
     (let t = (intervals s ! i)\<lparr>count := js_succ (count (intervals s ! i))\<rparr>;
          s1 = set_textContent (owner t) (decimal (count t)) (s\<lparr>intervals := (intervals s)[i := t]\<rparr>)
      in if js_ge (count t) (target t)
         then s1\<lparr>intervals := (intervals s1)[i := t\<lparr>cleared := True\<rparr>]\<rparr>
         else s1)"

definition timer_active :: "nat \<Rightarrow> page \<Rightarrow> bool" where
  "timer_active i s = (i < length (intervals s) \<and> \<not> cleared (intervals s ! i))"

text \<open>The browser fires a timer only while it exists and is not cleared.\<close>

definition fire_interval :: "nat \<Rightarrow> page \<Rightarrow> page" where
  "fire_interval i s = (if timer_active i s then counter_tick i s else s)"

text \<open>
  The whole life of the timer \<open>i\<close>: it fires again and again until it is cleared. The
  result is the number of ticks fired and the page left; there is none when the timer is
  never cleared.
\<close>

partial_function (option) run_interval :: "nat \<Rightarrow> page \<Rightarrow> nat \<Rightarrow> (nat \<times> page) option" where
  "run_interval i s n =
     (if timer_active i s then run_interval i (counter_tick i s) (Suc n) else Some (n, s))"

section \<open>Feature tabs\<close>

text \<open>
  \<^verbatim>\<open>document.getElementById\<close>: the first element in document order with the identifier;
  no element has the empty identifier.
\<close>

definition getElementById :: "page \<Rightarrow> jsstring \<Rightarrow> node option" where
  "getElementById s i =
     (if i = [] then None
      else find (\<lambda>n. getAttribute s n ''id'' = Some i) [0..<node_count s])"

text \<open>
  The click listener of the tab button \<open>btn\<close> (lines 203 to 213). When no element has the
  identifier, the last line reads a property of \<^verbatim>\<open>null\<close>: the handler ends there with a
  \<^verbatim>\<open>TypeError\<close>, and the page stays as the lines before left it.
\<close>

definition tabBtn_click :: "refs \<Rightarrow> node \<Rightarrow> page \<Rightarrow> (js_error \<times> page) + page" where
  "tabBtn_click r btn s =
     (let tabId = getAttribute s btn ''data-tab'';
          s1 = fold (\<lambda>b. classList_remove b ''active'') (tabBtns r) s;
          s2 = fold (\<lambda>p. classList_remove p ''active'') (tabPanes r) s1;
          s3 = classList_add btn ''active'' s2
      in case getElementById s3 (string_of_attr tabId) of
           None \<Rightarrow> Inl (TypeError, s3)
         | Some p \<Rightarrow> Inr (classList_add p ''active'' s3))"

text \<open>The page a handler leaves, whether it returned or threw.\<close>

definition page_after :: "(js_error \<times> page) + page \<Rightarrow> page" where
  "page_after res = (case res of Inl (e, s) \<Rightarrow> s | Inr s \<Rightarrow> s)"

text \<open>A sequence of clicks; an uncaught error in one handler does not stop the next event.\<close>

definition tab_clicks :: "refs \<Rightarrow> node list \<Rightarrow> page \<Rightarrow> page" where
  "tab_clicks r btns s = fold (\<lambda>b t. page_after (tabBtn_click r b t)) btns s"

definition active_nodes :: "page \<Rightarrow> node list \<Rightarrow> node set" where
  "active_nodes s ns = set (filter (\<lambda>n. classList_contains s n ''active'') ns)"

text \<open>Every tab button names, in its \<^verbatim>\<open>data-tab\<close> attribute, the identifier of a tab pane.\<close>

definition tabs_name_panes :: "refs \<Rightarrow> page \<Rightarrow> bool" where
  "tabs_name_panes r s =
     list_all (\<lambda>b. case getElementById s (string_of_attr (getAttribute s b ''data-tab'')) of
                     None \<Rightarrow> False
                   | Some p \<Rightarrow> p \<in> set (tabPanes r)) (tabBtns r)"

section \<open>Active navigation\<close>

text \<open>
  The selector text of lines 411 and 413, the template literal
  \<^verbatim>\<open>.nav-link[href="#${sectionId}"]\<close>: the identifier is inserted as it is.
\<close>

definition nav_link_selector :: "jsstring \<Rightarrow> jsstring" where
  "nav_link_selector sectionId = js ''.nav-link[href='' @ [0x22, 0x23] @ sectionId @ [0x22, 0x5D]"

text \<open>
  The body of the loop of \<^verbatim>\<open>highlightNavLink\<close> (lines 406 to 414). Both branches call
  \<^verbatim>\<open>querySelector\<close> with the same text; when the call throws, the body ends there with that
  error; when it returns \<^verbatim>\<open>null\<close>, the optional chaining skips the class change.
\<close>

definition highlight_section :: "refs \<Rightarrow> node \<Rightarrow> page \<Rightarrow> (js_error \<times> page) + page" where
  "highlight_section r sec s =
     (let sectionHeight = offsetHeight (elems s sec);
          sectionTop = offsetTop (elems s sec) - 100;
          sectionId = string_of_attr (getAttribute s sec ''id'')
      in if scrollY s > of_int sectionTop \<and> scrollY s \<le> of_int (sectionTop + sectionHeight)
         then (case querySelector r s (nav_link_selector sectionId) of
                 Inl e \<Rightarrow> Inl (e, s)
               | Inr None \<Rightarrow> Inr s
               | Inr (Some l) \<Rightarrow> Inr (classList_add l ''active'' s))
         else (case querySelector r s (nav_link_selector sectionId) of
                 Inl e \<Rightarrow> Inl (e, s)
               | Inr None \<Rightarrow> Inr s
               | Inr (Some l) \<Rightarrow> Inr (classList_remove l ''active'' s)))"

text \<open>
  \<^verbatim>\<open>sections.forEach\<close>: an error thrown by the body for one section ends the loop, and the
  sections after it are not visited.
\<close>

fun highlight_sections :: "refs \<Rightarrow> node list \<Rightarrow> page \<Rightarrow> (js_error \<times> page) + page" where
  "highlight_sections r [] s = Inr s"
| "highlight_sections r (sec # secs) s =
     (case highlight_section r sec s of
        Inl thrown \<Rightarrow> Inl thrown
      | Inr s' \<Rightarrow> highlight_sections r secs s')"

text \<open>\<^verbatim>\<open>highlightNavLink\<close> (lines 402 to 416).\<close>

definition highlightNavLink :: "refs \<Rightarrow> page \<Rightarrow> (js_error \<times> page) + page" where
  "highlightNavLink r s = highlight_sections r (sections r) s"

subsection \<open>What is assumed of the selector engine\<close>

text \<open>Every surrogate code unit of the string is half of a pair.\<close>

fun surrogates_paired :: "jsstring \<Rightarrow> bool" where
  "surrogates_paired [] = True"
| "surrogates_paired [u] = (\<not> (0xD800 \<le> u \<and> u \<le> 0xDFFF))"
| "surrogates_paired (u # v # rest) =
     (if 0xD800 \<le> u \<and> u \<le> 0xDBFF
      then 0xDC00 \<le> v \<and> v \<le> 0xDFFF \<and> surrogates_paired rest
      else \<not> (0xDC00 \<le> u \<and> u \<le> 0xDFFF) \<and> surrogates_paired (v # rest))"

text \<open>
  An identifier that a CSS string takes literally: it holds no double quote, no backslash,
  no line break (line feed, carriage return, form feed), no NUL and no unpaired surrogate.
\<close>

definition css_plain :: "jsstring \<Rightarrow> bool" where
  "css_plain i =
     (list_all (\<lambda>u. u \<notin> set [0x0022, 0x005C, 0x000A, 0x000D, 0x000C, 0x0000]) i \<and>
      surrogates_paired i)"

text \<open>
  What the selector \<^verbatim>\<open>.nav-link[href="#id"]\<close> selects when the identifier is taken literally:
  the first element in document order that carries the class \<^verbatim>\<open>nav-link\<close> and whose
  \<^verbatim>\<open>href\<close> attribute is \<^verbatim>\<open>#\<close> followed by the identifier.
\<close>

definition first_nav_link :: "page \<Rightarrow> jsstring \<Rightarrow> node option" where
  "first_nav_link s sectionId =
     find (\<lambda>n. classList_contains s n ''nav-link'' \<and>
                getAttribute s n ''href'' = Some (0x23 # sectionId)) [0..<node_count s]"

text \<open>
  The one thing assumed of \<^verbatim>\<open>querySelector\<close>: on the selector built from a literal
  identifier it returns that element (as it does in a document in no-quirks mode). Nothing
  is assumed for other identifiers, where the text may be no selector at all, so that the
  call throws, or may be another selector.
\<close>

definition selector_engine_ok :: "refs \<Rightarrow> bool" where
  "selector_engine_ok r =
     (\<forall>s i. css_plain i \<longrightarrow> querySelector r s (nav_link_selector i) = Inr (first_nav_link s i))"

section \<open>A sample document\<close>

text \<open>
  A small page with every kind of element the script looks for; the theorems below are
  instantiated on it.
\<close>

definition blank_element :: element where
  "blank_element =
     \<lparr>attrs = (\<lambda>a. None), classList = [], style = (\<lambda>p. None), textContent = [],
      checked = False, offsetTop = 0, offsetHeight = 0, complete = False\<rparr>"

definition el :: "(string \<times> string) list \<Rightarrow> string list \<Rightarrow> element" where
  "el as cs = blank_element\<lparr>attrs := map_option js \<circ> map_of as, classList := cs\<rparr>"

definition sample_elements :: "element list" where
  "sample_elements =
     [el [] [],
      el [] [],
      el [] [''loader''],
      el [] [''progress''],
      el [] [''header''],
      el [] [''mobile-menu-btn''],
      el [] [''hamburger''],
      el [] [''nav-links''],
      el [(''href'', ''#about'')] [''nav-link''],
      el [(''href'', ''#stats'')] [''nav-link''],
      el [(''id'', ''theme-toggle'')] [],
      el [(''data-tab'', ''tab-one'')] [''tab-btn'', ''active''],
      el [(''data-tab'', ''tab-two'')] [''tab-btn''],
      el [(''id'', ''tab-one'')] [''tab-pane'', ''active''],
      el [(''id'', ''tab-two'')] [''tab-pane''],
      el [] [''back-to-top''],
      el [(''data-target'', ''3'')] [''counter-number''],
      el [] [''counter-number''],
      (el [(''id'', ''about'')] [])\<lparr>offsetTop := 600, offsetHeight := 400\<rparr>,
      (el [(''id'', ''stats'')] [])\<lparr>offsetTop := 1000, offsetHeight := 300\<rparr>,
      (el [] [])\<lparr>complete := True\<rparr>,
      el [] [],
      el [] []]"

definition sample_page :: page where
  "sample_page =
     \<lparr>elems = (\<lambda>n. if n < length sample_elements then sample_elements ! n else blank_element),
      node_count = 23,
      localStorage = (\<lambda>k. None),
      scrollY = 0,
      innerHeight = 800,
      rect_top = (\<lambda>n. 1200),
      loadedCount = 0,
      img_listeners = [],
      timeouts = 0,
      intervals = []\<rparr>"

text \<open>
  A selector engine for the sample: it reads the selectors \<^verbatim>\<open>highlightNavLink\<close> builds from
  literal identifiers, and throws on every other text.
\<close>

definition selector_identifier :: "jsstring \<Rightarrow> jsstring option" where
  "selector_identifier sel =
     (let before = js ''.nav-link[href='' @ [0x22, 0x23];
          after = [0x22, 0x5D]
      in if length before + length after \<le> length sel \<and> take (length before) sel = before \<and>
            drop (length sel - length after) sel = after
         then Some (take (length sel - length before - length after) (drop (length before) sel))
         else None)"

definition sample_querySelector :: "page \<Rightarrow> jsstring \<Rightarrow> js_error + node option" where
  "sample_querySelector s sel =
     (case selector_identifier sel of
        None \<Rightarrow> Inl SyntaxError
      | Some i \<Rightarrow> if css_plain i then Inr (first_nav_link s i) else Inl SyntaxError)"

definition sample_refs :: refs where
  "sample_refs =
     \<lparr>loader = 2, progress = 3, header = 4, mobileMenuBtn = 5, hamburger = 6, navLinks = 7,
      navLinksItems = [8, 9], themeToggle = 10, tabBtns = [11, 12], tabPanes = [13, 14],
      backToTopBtn = 15, counterItems = [16, 17], scrollLinks = [8, 9], body = 1,
      documentElement = 0, images = [20, 21, 22], sections = [18, 19],
      querySelector = sample_querySelector\<rparr>"

text \<open>The sample page with a tab button whose \<^verbatim>\<open>data-tab\<close> names no element.\<close>

definition orphan_tab_page :: page where
  "orphan_tab_page = setAttribute 12 ''data-tab'' (js ''tab-three'') sample_page"

text \<open>Two viewports: one with every element in view, one with every element below it.\<close>

definition viewport_in :: viewport where
  "viewport_in = \<lparr>vp_scrollY = 600, vp_innerHeight = 800, vp_rect_top = (\<lambda>n. 100)\<rparr>"

definition viewport_out :: viewport where
  "viewport_out = \<lparr>vp_scrollY = 0, vp_innerHeight = 800, vp_rect_top = (\<lambda>n. 1200)\<rparr>"

text \<open>
  The sample page, scrolled into the second section, with a double quote in the identifier
  of the first section.
\<close>

definition quoted_id_page :: page where
  "quoted_id_page = setAttribute 18 ''id'' [0x0061, 0x0022, 0x0062] (sample_page\<lparr>scrollY := 1000\<rparr>)"

text \<open>
  The sample page with a counter whose target is negative, with one whose target follows a
  no-break space, and with one whose target is \<open>2^53 + 2\<close>.
\<close>

definition negative_target_page :: page where
  "negative_target_page = setAttribute 16 ''data-target'' (js ''-5'') sample_page"

definition nbsp_target_page :: page where
  "nbsp_target_page = setAttribute 16 ''data-target'' [0x00A0, 0x0035] sample_page"

definition huge_target_page :: page where
  "huge_target_page = setAttribute 16 ''data-target'' (js ''9007199254740994'') sample_page"

section \<open>Notions used in the statements\<close>

text \<open>The inline width of the progress bar.\<close>

definition progress_width :: "refs \<Rightarrow> page \<Rightarrow> css_value option" where
  "progress_width r s = style (elems s (progress r)) ''width''"

definition width_tracks_count :: "refs \<Rightarrow> page \<Rightarrow> bool" where
  "width_tracks_count r s =
     (progress_width r s = Some (Percent (of_nat (loadedCount s) / of_nat (totalItems r) * 100)))"

text \<open>The images that are not complete when \<^verbatim>\<open>init\<close> runs, and those that are.\<close>

definition pending_images :: "refs \<Rightarrow> page \<Rightarrow> node list" where
  "pending_images r s = filter (\<lambda>img. \<not> complete (elems s img)) (images r)"

definition complete_images :: "refs \<Rightarrow> page \<Rightarrow> node list" where
  "complete_images r s = filter (\<lambda>img. complete (elems s img)) (images r)"

text \<open>The test of line 410.\<close>

definition in_section :: "page \<Rightarrow> node \<Rightarrow> bool" where
  "in_section s sec =
     (of_int (offsetTop (elems s sec) - 100) < scrollY s \<and>
      scrollY s \<le> of_int (offsetTop (elems s sec) - 100 + offsetHeight (elems s sec)))"

text \<open>The identifier \<^verbatim>\<open>highlightNavLink\<close> reads from a section.\<close>

definition section_id :: "page \<Rightarrow> node \<Rightarrow> jsstring" where
  "section_id s sec = string_of_attr (getAttribute s sec ''id'')"

text \<open>The navigation link of a section whose identifier is taken literally.\<close>

definition section_link :: "page \<Rightarrow> node \<Rightarrow> node option" where
  "section_link s sec = first_nav_link s (section_id s sec)"

text \<open>What \<^verbatim>\<open>querySelector\<close> gives for a section.\<close>

definition section_lookup :: "refs \<Rightarrow> page \<Rightarrow> node \<Rightarrow> js_error + node option" where
  "section_lookup r s sec = querySelector r s (nav_link_selector (section_id s sec))"

text \<open>
  The body of the loop of \<^verbatim>\<open>highlightNavLink\<close> when the lookup returns the link of the
  literal identifier.
\<close>

definition highlight_literal :: "node \<Rightarrow> page \<Rightarrow> page" where
  "highlight_literal sec s =
     (if in_section s sec
      then (case section_link s sec of None \<Rightarrow> s | Some l \<Rightarrow> classList_add l ''active'' s)
      else (case section_link s sec of None \<Rightarrow> s | Some l \<Rightarrow> classList_remove l ''active'' s))"

text \<open>Two pages that differ at most in which elements carry the class \<^verbatim>\<open>active\<close>.\<close>

definition same_layout :: "page \<Rightarrow> page \<Rightarrow> bool" where
  "same_layout s t =
     (node_count t = node_count s \<and> scrollY t = scrollY s \<and>
      (\<forall>n. attrs (elems t n) = attrs (elems s n) \<and>
           offsetTop (elems t n) = offsetTop (elems s n) \<and>
           offsetHeight (elems t n) = offsetHeight (elems s n) \<and>
           (\<forall>c. c \<noteq> ''active'' \<longrightarrow> classList_contains t n c = classList_contains s n c)))"

text \<open>The element a tab button's click looks up.\<close>

definition tab_target :: "page \<Rightarrow> node \<Rightarrow> node option" where
  "tab_target s b = getElementById s (string_of_attr (getAttribute s b ''data-tab''))"

text \<open>
  The timer \<open>i\<close> exists, belongs to the counter \<open>c\<close>, has the target \<open>tgt\<close>, has counted
  to \<open>k\<close> and is not cleared.
\<close>

definition timer_at :: "nat \<Rightarrow> page \<Rightarrow> node \<Rightarrow> jsnum \<Rightarrow> nat \<Rightarrow> bool" where
  "timer_at i s c tgt k =
     (i < length (intervals s) \<and> owner (intervals s ! i) = c \<and> target (intervals s ! i) = tgt \<and>
      count (intervals s ! i) = k \<and> \<not> cleared (intervals s ! i))"

text \<open>
  The number of ticks as the specification words it, \<open>ceil(T / max(floor(2000/T), 10))\<close>;
  it is compared below with the number of ticks of the code.
\<close>

definition spec_tick_count :: "int \<Rightarrow> int" where
  "spec_tick_count T = \<lceil>(of_int T :: rat) / of_int (max (2000 div T) 10)\<rceil>"

text \<open>The interval timers that were started for a counter element.\<close>

definition timers_of :: "page \<Rightarrow> node \<Rightarrow> timer list" where
  "timers_of s c = filter (\<lambda>t. owner t = c) (intervals s)"

text \<open>Every element has at most one timer, and has one only if it is marked \<^verbatim>\<open>animated\<close>.\<close>

definition started_once :: "page \<Rightarrow> bool" where
  "started_once s =
     (\<forall>c. length (timers_of s c) \<le> (if classList_contains s c ''animated'' then 1 else 0))"

section \<open>Modules, handlers and what they write\<close>

text \<open>
  A location is what a handler can write: one class token, one inline style property, one
  attribute, the text or the checked state of a node, or one key of local storage.
\<close>

datatype location =
    ClassToken node string
  | StyleProperty node string
  | Attribute node string
  | TextContent node
  | Checked node
  | StorageKey string

fun node_of :: "location \<Rightarrow> node option" where
  "node_of (ClassToken n c) = Some n"
| "node_of (StyleProperty n p) = Some n"
| "node_of (Attribute n a) = Some n"
| "node_of (TextContent n) = Some n"
| "node_of (Checked n) = Some n"
| "node_of (StorageKey k) = None"

text \<open>The location holds different contents in the two pages.\<close>

fun differs :: "page \<Rightarrow> page \<Rightarrow> location \<Rightarrow> bool" where
  "differs s t (ClassToken n c) = (classList_contains s n c \<noteq> classList_contains t n c)"
| "differs s t (StyleProperty n p) = (style (elems s n) p \<noteq> style (elems t n) p)"
| "differs s t (Attribute n a) = (getAttribute s n a \<noteq> getAttribute t n a)"
| "differs s t (TextContent n) = (textContent (elems s n) \<noteq> textContent (elems t n))"
| "differs s t (Checked n) = (checked (elems s n) \<noteq> checked (elems t n))"
| "differs s t (StorageKey k) = (localStorage s k \<noteq> localStorage t k)"

text \<open>
  The six modules whose writes are in the script itself, and their handlers. (The two
  remaining modules, the animation bootstrap and the particle background, only call external
  libraries. The click listener of \<^verbatim>\<open>setupSmoothScroll\<close> only scrolls the window.)
\<close>

datatype module =
  Preloader | MobileMenu | ThemeSwitcher | ScrollEffects | FeatureTabs | ActiveNavigation

datatype handler =
    PreloaderInit | ImageSettled node | LoadedTimeout
  | MenuButtonClick | NavLinkClick
  | ThemeInit | ThemeChange
  | Scroll | IntervalTick nat
  | TabClick node
  | HighlightNav

fun module_of :: "handler \<Rightarrow> module" where
  "module_of PreloaderInit = Preloader"
| "module_of (ImageSettled img) = Preloader"
| "module_of LoadedTimeout = Preloader"
| "module_of MenuButtonClick = MobileMenu"
| "module_of NavLinkClick = MobileMenu"
| "module_of ThemeInit = ThemeSwitcher"
| "module_of ThemeChange = ThemeSwitcher"
| "module_of Scroll = ScrollEffects"
| "module_of (IntervalTick i) = ScrollEffects"
| "module_of (TabClick b) = FeatureTabs"
| "module_of HighlightNav = ActiveNavigation"

fun run_handler :: "refs \<Rightarrow> handler \<Rightarrow> page \<Rightarrow> page" where
  "run_handler r PreloaderInit s = preloader_init r s"
| "run_handler r (ImageSettled img) s = image_event r img s"
| "run_handler r LoadedTimeout s = loaded_timeout r s"
| "run_handler r MenuButtonClick s = mobileMenuBtn_click r s"
| "run_handler r NavLinkClick s = navLink_click r s"
| "run_handler r ThemeInit s = themeSwitcher_init r s"
| "run_handler r ThemeChange s = toggleTheme r s"
| "run_handler r Scroll s = handleScroll r s"
| "run_handler r (IntervalTick i) s = fire_interval i s"
| "run_handler r (TabClick b) s = page_after (tabBtn_click r b s)"
| "run_handler r HighlightNav s = page_after (highlightNavLink r s)"

text \<open>The click listener of the feature tabs exists for the tab buttons only.\<close>

fun handler_registered :: "refs \<Rightarrow> handler \<Rightarrow> bool" where
  "handler_registered r (TabClick b) = (b \<in> set (tabBtns r))"
| "handler_registered r h = True"

text \<open>
  The elements that get the class \<^verbatim>\<open>active\<close> from different modules are different elements:
  the hamburger icon and the navigation panel; the back-to-top button; the tab buttons and
  panes; the navigation links.
\<close>

definition active_apart :: "refs \<Rightarrow> bool" where
  "active_apart r =
     (let menu = [hamburger r, navLinks r];
          tabs = tabBtns r @ tabPanes r;
          links = navLinksItems r
      in backToTopBtn r \<notin> set menu \<and> backToTopBtn r \<notin> set tabs \<and> backToTopBtn r \<notin> set links \<and>
         set menu \<inter> set tabs = {} \<and> set menu \<inter> set links = {} \<and> set tabs \<inter> set links = {})"

text \<open>
  What the handlers look up in the document is of the expected kind: a tab button names a tab
  pane or nothing, and the link found for a section is one of the navigation links (on the
  page, and on a page that differs from it only in where \<^verbatim>\<open>active\<close> stands, as the pages
  inside the loop of \<^verbatim>\<open>highlightNavLink\<close> do).
\<close>

definition lookups_found :: "refs \<Rightarrow> page \<Rightarrow> bool" where
  "lookups_found r s =
     (list_all (\<lambda>b. case tab_target s b of None \<Rightarrow> True | Some p \<Rightarrow> p \<in> set (tabPanes r)) (tabBtns r) \<and>
      (\<forall>t. same_layout s t \<longrightarrow>
         list_all (\<lambda>sec. case section_lookup r t sec of
                            Inl e \<Rightarrow> True
                          | Inr None \<Rightarrow> True
                          | Inr (Some l) \<Rightarrow> l \<in> set (navLinksItems r)) (sections r)))"

text \<open>The locations a module writes.\<close>

fun footprint :: "refs \<Rightarrow> module \<Rightarrow> location \<Rightarrow> bool" where
  "footprint r Preloader l =
     (l = StyleProperty (progress r) ''width'' \<or> l = ClassToken (loader r) ''fade-out'' \<or>
      l = StyleProperty (body r) ''overflow'')"
| "footprint r MobileMenu l =
     (l = ClassToken (hamburger r) ''active'' \<or> l = ClassToken (navLinks r) ''active'' \<or>
      l = ClassToken (body r) ''menu-open'')"
| "footprint r ThemeSwitcher l =
     (l = Attribute (documentElement r) ''data-theme'' \<or> l = Checked (themeToggle r) \<or>
      l = StorageKey ''theme'')"
| "footprint r ScrollEffects l =
     (l = ClassToken (header r) ''scrolled'' \<or> l = ClassToken (backToTopBtn r) ''active'' \<or>
      (\<exists>n. l = ClassToken n ''animated'') \<or> (\<exists>n. l = TextContent n))"
| "footprint r FeatureTabs l =
     (\<exists>n. l = ClassToken n ''active'' \<and> (n \<in> set (tabBtns r) \<or> n \<in> set (tabPanes r)))"
| "footprint r ActiveNavigation l =
     (\<exists>n. l = ClassToken n ''active'' \<and> n \<in> set (navLinksItems r))"

text \<open>A state transformer changes only locations of the given kind.\<close>

definition writes_only :: "(location \<Rightarrow> bool) \<Rightarrow> (page \<Rightarrow> page) \<Rightarrow> bool" where
  "writes_only F f = (\<forall>s l. differs s (f s) l \<longrightarrow> F l)"

section \<open>Basic facts about the store\<close>

lemma elems_update_element:
  "elems (update_element n f s) m = (if m = n then f (elems s n) else elems s m)"
  by (simp add: update_element_def)

lemma update_element_fields [simp]:
  "node_count (update_element n f s) = node_count s"
  "localStorage (update_element n f s) = localStorage s"
  "scrollY (update_element n f s) = scrollY s"
  "innerHeight (update_element n f s) = innerHeight s"
  "rect_top (update_element n f s) = rect_top s"
  "loadedCount (update_element n f s) = loadedCount s"
  "img_listeners (update_element n f s) = img_listeners s"
  "timeouts (update_element n f s) = timeouts s"
  "intervals (update_element n f s) = intervals s"
  by (simp_all add: update_element_def)

lemma set_token_toggle:
  "c \<in> set (token_toggle d cs) \<longleftrightarrow> (if c = d then c \<notin> set cs else c \<in> set cs)"
  by (auto simp: token_toggle_def token_remove_def)

lemma contains_toggle:
  "classList_contains (classList_toggle m d s) n c =
     (if n = m \<and> c = d then \<not> classList_contains s n c else classList_contains s n c)"
  by (simp add: classList_contains_def classList_toggle_def elems_update_element set_token_toggle)

lemma contains_add:
  "classList_contains (classList_add m d s) n c = ((n = m \<and> c = d) \<or> classList_contains s n c)"
  by (auto simp: classList_contains_def classList_add_def elems_update_element token_add_def)

lemma contains_remove:
  "classList_contains (classList_remove m d s) n c =
     (\<not> (n = m \<and> c = d) \<and> classList_contains s n c)"
  by (auto simp: classList_contains_def classList_remove_def elems_update_element token_remove_def)

lemma classList_ops_static [simp]:
  "node_count (classList_add m d s) = node_count s"
  "node_count (classList_remove m d s) = node_count s"
  "getAttribute (classList_add m d s) n a = getAttribute s n a"
  "getAttribute (classList_remove m d s) n a = getAttribute s n a"
  by (simp_all add: classList_add_def classList_remove_def getAttribute_def elems_update_element)

lemma set_style_fields [simp]:
  "loadedCount (set_style n p v s) = loadedCount s"
  "img_listeners (set_style n p v s) = img_listeners s"
  "timeouts (set_style n p v s) = timeouts s"
  "complete (elems (set_style n p v s) m) = complete (elems s m)"
  by (simp_all add: set_style_def elems_update_element)

lemma classList_ops_fields [simp]:
  "intervals (classList_add m d s) = intervals s"
  "intervals (classList_remove m d s) = intervals s"
  "scrollY (classList_add m d s) = scrollY s"
  "scrollY (classList_remove m d s) = scrollY s"
  "innerHeight (classList_add m d s) = innerHeight s"
  "innerHeight (classList_remove m d s) = innerHeight s"
  "rect_top (classList_add m d s) = rect_top s"
  "rect_top (classList_remove m d s) = rect_top s"
  by (simp_all add: classList_add_def classList_remove_def)

lemma contains_intervals_update [simp]:
  "classList_contains (s\<lparr>intervals := ts\<rparr>) c d = classList_contains s c d"
  by (simp add: classList_contains_def)

lemma js_literals [simp]:
  "js ''dark'' \<noteq> []" "js ''light'' \<noteq> []" "js ''light'' \<noteq> js ''dark''"
  "js ''dark'' \<noteq> js ''light''"
  by (simp_all add: js_def)

section \<open>Mobile menu: two clicks\<close>

text \<open>
  Claim C7. Two clicks on the menu button in succession restore every class membership of
  every element, whichever nodes the hamburger icon, the navigation panel and the body
  are: in particular \<^verbatim>\<open>active\<close> on the icon, \<^verbatim>\<open>active\<close> on the panel and \<^verbatim>\<open>menu-open\<close> on
  the body are as they were.
\<close>

theorem menu_click_twice:
  "classList_contains (mobileMenuBtn_click r (mobileMenuBtn_click r s)) n c
     = classList_contains s n c"
  by (simp add: mobileMenuBtn_click_def contains_toggle)

theorem menu_click_twice_witness:
  "classList_contains (mobileMenuBtn_click sample_refs sample_page) 6 ''active'' \<and>
   classList_contains (mobileMenuBtn_click sample_refs sample_page) 7 ''active'' \<and>
   classList_contains (mobileMenuBtn_click sample_refs sample_page) 1 ''menu-open'' \<and>
   \<not> classList_contains
       (mobileMenuBtn_click sample_refs (mobileMenuBtn_click sample_refs sample_page)) 6 ''active'' \<and>
   \<not> classList_contains
       (mobileMenuBtn_click sample_refs (mobileMenuBtn_click sample_refs sample_page)) 7 ''active'' \<and>
   \<not> classList_contains
       (mobileMenuBtn_click sample_refs (mobileMenuBtn_click sample_refs sample_page)) 1 ''menu-open''"
proof -
  have opened:
    "classList_contains (mobileMenuBtn_click sample_refs sample_page) 6 ''active''"
    "classList_contains (mobileMenuBtn_click sample_refs sample_page) 7 ''active''"
    "classList_contains (mobileMenuBtn_click sample_refs sample_page) 1 ''menu-open''"
    by code_simp+
  have closed:
    "\<not> classList_contains sample_page 6 ''active''"
    "\<not> classList_contains sample_page 7 ''active''"
    "\<not> classList_contains sample_page 1 ''menu-open''"
    by code_simp+
  show ?thesis
    using opened closed by (simp add: menu_click_twice)
qed

section \<open>Theme switcher: the stored preference survives a reload\<close>

text \<open>
  Claim C5. When the control is checked, \<^verbatim>\<open>toggleTheme\<close> stores \<^verbatim>\<open>dark\<close>, and
  initialisation on the reloaded page sets the attribute to \<^verbatim>\<open>dark\<close> and checks the
  control; when it is not checked, the same with \<^verbatim>\<open>light\<close> and an unchecked control; and
  with no stored value, initialisation sets \<^verbatim>\<open>dark\<close> and checks the control.
\<close>

theorem theme_roundtrip:
  "(checked (elems s (themeToggle r)) \<longrightarrow>
      localStorage (toggleTheme r s) ''theme'' = Some (js ''dark'') \<and>
      getAttribute (themeSwitcher_init r (reload fresh (toggleTheme r s)))
        (documentElement r) ''data-theme'' = Some (js ''dark'') \<and>
      checked (elems (themeSwitcher_init r (reload fresh (toggleTheme r s))) (themeToggle r))) \<and>
   (\<not> checked (elems s (themeToggle r)) \<longrightarrow>
      localStorage (toggleTheme r s) ''theme'' = Some (js ''light'') \<and>
      getAttribute (themeSwitcher_init r (reload fresh (toggleTheme r s)))
        (documentElement r) ''data-theme'' = Some (js ''light'') \<and>
      \<not> checked (elems (themeSwitcher_init r (reload fresh (toggleTheme r s))) (themeToggle r))) \<and>
   (localStorage fresh ''theme'' = None \<longrightarrow>
      getAttribute (themeSwitcher_init r fresh) (documentElement r) ''data-theme'' = Some (js ''dark'') \<and>
      checked (elems (themeSwitcher_init r fresh) (themeToggle r)))"
  by (simp add: toggleTheme_def themeSwitcher_init_def reload_def savedTheme_def setItem_def
      setAttribute_def set_checked_def getAttribute_def elems_update_element Let_def)

theorem theme_roundtrip_witness:
  "checked (elems (set_checked 10 True sample_page) (themeToggle sample_refs)) \<and>
   localStorage (toggleTheme sample_refs (set_checked 10 True sample_page)) ''theme'' = Some (js ''dark'') \<and>
   getAttribute (themeSwitcher_init sample_refs
       (reload sample_page (toggleTheme sample_refs (set_checked 10 True sample_page))))
     (documentElement sample_refs) ''data-theme'' = Some (js ''dark'') \<and>
   checked (elems (themeSwitcher_init sample_refs
       (reload sample_page (toggleTheme sample_refs (set_checked 10 True sample_page))))
     (themeToggle sample_refs)) \<and>
   \<not> checked (elems sample_page (themeToggle sample_refs)) \<and>
   localStorage (toggleTheme sample_refs sample_page) ''theme'' = Some (js ''light'') \<and>
   getAttribute (themeSwitcher_init sample_refs
       (reload sample_page (toggleTheme sample_refs sample_page)))
     (documentElement sample_refs) ''data-theme'' = Some (js ''light'') \<and>
   \<not> checked (elems (themeSwitcher_init sample_refs
       (reload sample_page (toggleTheme sample_refs sample_page))) (themeToggle sample_refs)) \<and>
   localStorage sample_page ''theme'' = None \<and>
   getAttribute (themeSwitcher_init sample_refs sample_page)
     (documentElement sample_refs) ''data-theme'' = Some (js ''dark'') \<and>
   checked (elems (themeSwitcher_init sample_refs sample_page) (themeToggle sample_refs))"
proof -
  have on: "checked (elems (set_checked 10 True sample_page) (themeToggle sample_refs))"
    by code_simp
  have off: "\<not> checked (elems sample_page (themeToggle sample_refs))"
    by code_simp
  have absent: "localStorage sample_page ''theme'' = None"
    by code_simp
  show ?thesis
    using on off absent
      theme_roundtrip [of "set_checked 10 True sample_page" sample_refs sample_page]
      theme_roundtrip [of sample_page sample_refs sample_page]
    by simp
qed

section \<open>Preloader: when the counter reaches its total\<close>

lemma loadedCount_increment [simp]: "loadedCount (increment r s) = loadedCount s + 1"
  by (simp add: increment_def Let_def)

lemma img_listeners_increment [simp]: "img_listeners (increment r s) = img_listeners s"
  by (simp add: increment_def Let_def)

lemma complete_increment [simp]: "complete (elems (increment r s) n) = complete (elems s n)"
  by (simp add: increment_def Let_def)

lemma timeouts_increment:
  "timeouts (increment r s) =
     (if totalItems r \<le> loadedCount s + 1 then timeouts s + 1 else timeouts s)"
  by (simp add: increment_def Let_def)

lemma width_increment [simp]: "width_tracks_count r (increment r s)"
  by (simp add: width_tracks_count_def progress_width_def increment_def Let_def set_style_def
      elems_update_element)

lemma percent_full:
  "width_tracks_count r s \<Longrightarrow>
     progress_width r s = Some (Percent 100) \<longleftrightarrow> loadedCount s = totalItems r"
proof -
  have "(of_nat (loadedCount s) / of_nat (totalItems r) * 100 = (100::rat)) \<longleftrightarrow>
        (of_nat (loadedCount s) :: rat) = of_nat (totalItems r)"
    by (auto simp: totalItems_def field_simps)
  then show "width_tracks_count r s \<Longrightarrow>
     progress_width r s = Some (Percent 100) \<longleftrightarrow> loadedCount s = totalItems r"
    by (simp add: width_tracks_count_def)
qed

lemma loadedCount_funpow: "loadedCount ((increment r ^^ k) s) = loadedCount s + k"
  by (induction k) simp_all

lemma fold_count_image:
  "loadedCount (fold (count_image r) imgs s) =
       loadedCount s + length (filter (\<lambda>img. complete (elems s img)) imgs) \<and>
   img_listeners (fold (count_image r) imgs s) =
       img_listeners s @ filter (\<lambda>img. \<not> complete (elems s img)) imgs \<and>
   (\<forall>n. complete (elems (fold (count_image r) imgs s) n) = complete (elems s n))"
proof (induction imgs arbitrary: s)
  case Nil
  then show ?case by simp
next
  case (Cons img imgs)
  show ?case
    using Cons.IH [of "count_image r img s"]
    by (simp add: count_image_def)
qed

lemma fold_image_event:
  "set evs \<subseteq> set (img_listeners s) \<Longrightarrow>
     loadedCount (fold (image_event r) evs s) = loadedCount s + length evs \<and>
     img_listeners (fold (image_event r) evs s) = img_listeners s \<and>
     (evs \<noteq> [] \<or> width_tracks_count r s \<longrightarrow> width_tracks_count r (fold (image_event r) evs s))"
proof (induction evs arbitrary: s)
  case Nil
  then show ?case by simp
next
  case (Cons e evs)
  then have "set evs \<subseteq> set (img_listeners (increment r s))" by simp
  from Cons.IH [OF this] Cons.prems show ?case
    by (simp add: image_event_def)
qed

lemma init_state:
  assumes "loadedCount s = 0" "img_listeners s = []" "images r \<noteq> []"
  shows "loadedCount (preloader_init r s) = length (complete_images r s) + 2"
    and "img_listeners (preloader_init r s) = pending_images r s"
    and "width_tracks_count r (preloader_init r s)"
  using assms
    fold_count_image [of r "images r" "set_style (progress r) ''width'' (Percent 0) s"]
  by (simp_all add: preloader_init_def count_images_def complete_images_def pending_images_def)

lemma length_complete_pending:
  "length (complete_images r s) + length (pending_images r s) = length (images r)"
  by (simp add: complete_images_def pending_images_def sum_length_filter_compl)

lemma distinct_subset_length:
  assumes "distinct evs" "distinct ps" "set evs \<subseteq> set ps"
  shows "length evs \<le> length ps \<and> (length evs = length ps \<longleftrightarrow> set evs = set ps)"
proof -
  have "card (set evs) \<le> card (set ps)"
    using assms(3) by (simp add: card_mono)
  moreover have "card (set evs) = card (set ps) \<longleftrightarrow> set evs = set ps"
    using assms(3) by (metis List.finite_set card_subset_eq)
  ultimately show ?thesis
    using assms(1,2) by (simp add: distinct_card)
qed

text \<open>
  Claim C1. Start from a page on which nothing is counted yet. With no image, the two
  increments that stand for the images bring the counter to its total (and the width to
  100 percent, and the timeout is set), and one increment does not; \<^verbatim>\<open>init\<close> then still runs
  the two fixed increments, which take the counter two past the total. With images, after
  \<^verbatim>\<open>init\<close> and the load or error events of any set of distinct pending images the counter
  is the number of complete images, plus the events, plus the two fixed increments; it never
  exceeds the total, and it equals the total, and the width is 100 percent, exactly when
  every pending image has settled. In general \<open>k\<close> increments give the count \<open>k\<close>, which
  is the total exactly when \<open>k\<close> is the number of images plus 2.
\<close>

theorem preloader_reaches_total:
  assumes "loadedCount s = 0" and "img_listeners s = []" and "distinct (images r)"
  shows
    "(images r = [] \<longrightarrow>
        loadedCount (increment r (set_style (progress r) ''width'' (Percent 0) s)) < totalItems r \<and>
        loadedCount (count_images r (set_style (progress r) ''width'' (Percent 0) s)) = totalItems r \<and>
        progress_width r (count_images r (set_style (progress r) ''width'' (Percent 0) s))
          = Some (Percent 100) \<and>
        0 < timeouts (count_images r (set_style (progress r) ''width'' (Percent 0) s)) \<and>
        loadedCount (preloader_init r s) = totalItems r + 2) \<and>
     (images r \<noteq> [] \<longrightarrow>
        (\<forall>evs. distinct evs \<and> set evs \<subseteq> set (pending_images r s) \<longrightarrow>
           loadedCount (fold (image_event r) evs (preloader_init r s)) =
             length (complete_images r s) + length evs + 2 \<and>
           loadedCount (fold (image_event r) evs (preloader_init r s)) \<le> totalItems r \<and>
           (loadedCount (fold (image_event r) evs (preloader_init r s)) = totalItems r
              \<longleftrightarrow> set evs = set (pending_images r s)) \<and>
           (progress_width r (fold (image_event r) evs (preloader_init r s)) = Some (Percent 100)
              \<longleftrightarrow> set evs = set (pending_images r s)))) \<and>
     (\<forall>k. loadedCount ((increment r ^^ k) s) = k \<and>
          (loadedCount ((increment r ^^ k) s) = totalItems r \<longleftrightarrow> k = length (images r) + 2))"
proof (intro conjI impI allI)
  assume none: "images r = []"
  let ?s0 = "set_style (progress r) ''width'' (Percent 0) s"
  have c0: "loadedCount ?s0 = 0"
    using assms(1) by simp
  show "loadedCount (increment r ?s0) < totalItems r"
    using c0 by (simp add: totalItems_def)
  show total: "loadedCount (count_images r ?s0) = totalItems r"
    using c0 none by (simp add: count_images_def totalItems_def)
  have "width_tracks_count r (count_images r ?s0)"
    using none by (simp add: count_images_def)
  then show "progress_width r (count_images r ?s0) = Some (Percent 100)"
    using total by (simp add: percent_full)
  show "0 < timeouts (count_images r ?s0)"
    using c0 none by (simp add: count_images_def totalItems_def timeouts_increment)
  show "loadedCount (preloader_init r s) = totalItems r + 2"
    using c0 none by (simp add: preloader_init_def count_images_def totalItems_def)
next
  fix evs
  assume some: "images r \<noteq> []"
    and evs: "distinct evs \<and> set evs \<subseteq> set (pending_images r s)"
  let ?i = "preloader_init r s"
  let ?e = "fold (image_event r) evs ?i"
  note init = init_state [OF assms(1,2) some]
  have sub: "set evs \<subseteq> set (img_listeners ?i)"
    using evs init(2) by simp
  have ev: "loadedCount ?e = loadedCount ?i + length evs" "width_tracks_count r ?e"
    using fold_image_event [OF sub, of r] init(3) by simp_all
  have dp: "distinct (pending_images r s)"
    using assms(3) by (simp add: pending_images_def)
  have len: "length evs \<le> length (pending_images r s)"
    "length evs = length (pending_images r s) \<longleftrightarrow> set evs = set (pending_images r s)"
    using distinct_subset_length [of evs "pending_images r s"] evs dp by simp_all
  show count: "loadedCount ?e = length (complete_images r s) + length evs + 2"
    using ev(1) init(1) by simp
  show "loadedCount ?e \<le> totalItems r"
    using count len(1) length_complete_pending [of r s] by (simp add: totalItems_def)
  show full: "loadedCount ?e = totalItems r \<longleftrightarrow> set evs = set (pending_images r s)"
    using count len length_complete_pending [of r s] by (auto simp: totalItems_def)
  show "progress_width r ?e = Some (Percent 100) \<longleftrightarrow> set evs = set (pending_images r s)"
    using percent_full [OF ev(2)] full by simp
next
  fix k
  show "loadedCount ((increment r ^^ k) s) = k"
    using assms(1) by (simp add: loadedCount_funpow)
  then show "loadedCount ((increment r ^^ k) s) = totalItems r \<longleftrightarrow> k = length (images r) + 2"
    by (simp add: totalItems_def)
qed

theorem preloader_reaches_total_witness:
  "loadedCount sample_page = 0 \<and> img_listeners sample_page = [] \<and>
   distinct (images sample_refs) \<and> images sample_refs \<noteq> [] \<and>
   distinct [22, 21::nat] \<and> set [22, 21] = set (pending_images sample_refs sample_page) \<and>
   loadedCount (fold (image_event sample_refs) [22, 21] (preloader_init sample_refs sample_page))
     = totalItems sample_refs \<and>
   progress_width sample_refs
     (fold (image_event sample_refs) [22, 21] (preloader_init sample_refs sample_page))
     = Some (Percent 100) \<and>
   distinct [21::nat] \<and> set [21] \<subseteq> set (pending_images sample_refs sample_page) \<and>
   loadedCount (fold (image_event sample_refs) [21] (preloader_init sample_refs sample_page)) = 4 \<and>
   totalItems sample_refs = 5 \<and>
   images (sample_refs\<lparr>images := []\<rparr>) = [] \<and> distinct (images (sample_refs\<lparr>images := []\<rparr>)) \<and>
   loadedCount (count_images (sample_refs\<lparr>images := []\<rparr>)
     (set_style (progress (sample_refs\<lparr>images := []\<rparr>)) ''width'' (Percent 0) sample_page))
     = totalItems (sample_refs\<lparr>images := []\<rparr>)"
proof -
  have fresh: "loadedCount sample_page = 0" "img_listeners sample_page = []"
    by code_simp+
  have imgs: "distinct (images sample_refs)" "images sample_refs \<noteq> []"
    by code_simp+
  have all: "distinct [22, 21::nat]" "set [22, 21] = set (pending_images sample_refs sample_page)"
    by code_simp+
  have one: "distinct [21::nat]" "set [21] \<subseteq> set (pending_images sample_refs sample_page)"
    by code_simp+
  have sizes: "totalItems sample_refs = 5" "length (complete_images sample_refs sample_page) = 1"
    by code_simp+
  have none: "images (sample_refs\<lparr>images := []\<rparr>) = []"
    "distinct (images (sample_refs\<lparr>images := []\<rparr>))"
    by simp_all
  note with_images = preloader_reaches_total [OF fresh imgs(1)]
  note no_images = preloader_reaches_total [OF fresh none(2)]
  have settle: "\<And>evs. distinct evs \<Longrightarrow> set evs \<subseteq> set (pending_images sample_refs sample_page) \<Longrightarrow>
      loadedCount (fold (image_event sample_refs) evs (preloader_init sample_refs sample_page)) =
             length (complete_images sample_refs sample_page) + length evs + 2 \<and>
      (loadedCount (fold (image_event sample_refs) evs (preloader_init sample_refs sample_page))
           = totalItems sample_refs \<longleftrightarrow> set evs = set (pending_images sample_refs sample_page)) \<and>
      (progress_width sample_refs
           (fold (image_event sample_refs) evs (preloader_init sample_refs sample_page))
           = Some (Percent 100) \<longleftrightarrow> set evs = set (pending_images sample_refs sample_page))"
    using with_images imgs(2) by blast
  have sub: "set [22, 21] \<subseteq> set (pending_images sample_refs sample_page)"
    by code_simp
  have a: "loadedCount (fold (image_event sample_refs) [22, 21] (preloader_init sample_refs sample_page))
     = totalItems sample_refs"
    "progress_width sample_refs
     (fold (image_event sample_refs) [22, 21] (preloader_init sample_refs sample_page))
     = Some (Percent 100)"
    using settle [OF all(1) sub] all(2) by blast+
  have "loadedCount (fold (image_event sample_refs) [21] (preloader_init sample_refs sample_page))
     = length (complete_images sample_refs sample_page) + length [21::nat] + 2"
    using settle [OF one] by blast
  then have b: "loadedCount (fold (image_event sample_refs) [21] (preloader_init sample_refs sample_page)) = 4"
    by (simp only: sizes(2)) simp
  have c: "loadedCount (count_images (sample_refs\<lparr>images := []\<rparr>)
     (set_style (progress (sample_refs\<lparr>images := []\<rparr>)) ''width'' (Percent 0) sample_page))
     = totalItems (sample_refs\<lparr>images := []\<rparr>)"
    using no_images none(1) by blast
  show ?thesis
    by (intro conjI fresh imgs all one sizes(1) none a b c)
qed

section \<open>Active navigation: when a link is highlighted\<close>

lemma same_layout_refl: "same_layout s s"
  by (simp add: same_layout_def)

lemma same_layout_add: "same_layout s t \<Longrightarrow> same_layout s (classList_add l ''active'' t)"
  by (simp add: same_layout_def contains_add) (simp add: classList_add_def elems_update_element)

lemma same_layout_remove: "same_layout s t \<Longrightarrow> same_layout s (classList_remove l ''active'' t)"
  by (simp add: same_layout_def contains_remove)
    (simp add: classList_remove_def elems_update_element)

lemma same_layout_literal: "same_layout s t \<Longrightarrow> same_layout s (highlight_literal x t)"
  by (simp add: highlight_literal_def same_layout_add same_layout_remove split: option.split)

lemma same_layout_fold: "same_layout s t \<Longrightarrow> same_layout s (fold highlight_literal xs t)"
  by (induction xs arbitrary: t) (simp_all add: same_layout_literal)

lemma same_layout_link:
  assumes "same_layout s t"
  shows "first_nav_link t i = first_nav_link s i"
proof -
  have "(\<lambda>n. classList_contains t n ''nav-link'' \<and> getAttribute t n ''href'' = Some (0x23 # i)) =
        (\<lambda>n. classList_contains s n ''nav-link'' \<and> getAttribute s n ''href'' = Some (0x23 # i))"
    using assms by (simp add: same_layout_def getAttribute_def)
  then show ?thesis
    using assms by (simp add: first_nav_link_def same_layout_def)
qed

lemma link_href:
  "first_nav_link s i = Some l \<Longrightarrow> getAttribute s l ''href'' = Some (0x23 # i)"
  by (auto simp: first_nav_link_def find_Some_iff)

lemma highlight_step:
  "classList_contains (highlight_literal x t) l ''active'' =
     (if section_link t x = Some l then in_section t x else classList_contains t l ''active'')"
  by (auto simp: highlight_literal_def contains_add contains_remove split: option.split)

lemma same_layout_facts:
  assumes "same_layout s t"
  shows "section_link t x = section_link s x" and "in_section t x = in_section s x"
    and "section_id t x = section_id s x"
  using assms same_layout_link [OF assms]
  by (simp_all add: section_link_def section_id_def in_section_def same_layout_def
      getAttribute_def)

lemma fold_highlight_link:
  assumes "distinct (map (section_id s) secs)"
    and "sec \<in> set secs" and "section_link s sec = Some l"
  shows "classList_contains (fold highlight_literal secs s) l ''active'' = in_section s sec"
  using assms
proof (induction secs rule: rev_induct)
  case Nil
  then show ?case by simp
next
  case (snoc x xs)
  let ?t = "fold highlight_literal xs s"
  have lay: "same_layout s ?t"
    by (simp add: same_layout_fold same_layout_refl)
  note st = same_layout_facts [OF lay]
  show ?case
  proof (cases "sec = x")
    case True
    then show ?thesis
      using snoc.prems(3) by (simp add: highlight_step st)
  next
    case False
    then have mem: "sec \<in> set xs"
      and dist: "distinct (map (section_id s) xs)"
      and ids: "section_id s x \<noteq> section_id s sec"
      using snoc.prems by auto
    have "section_link s x \<noteq> Some l"
    proof
      assume "section_link s x = Some l"
      then have "getAttribute s l ''href'' = Some (0x23 # section_id s x)"
        by (simp add: section_link_def link_href)
      moreover have "getAttribute s l ''href'' = Some (0x23 # section_id s sec)"
        using snoc.prems(3) by (simp add: section_link_def link_href)
      ultimately show False using ids by simp
    qed
    then show ?thesis
      using snoc.IH [OF dist mem snoc.prems(3)] by (simp add: highlight_step st)
  qed
qed

text \<open>With a literal identifier and the engine as assumed, the body of the loop does not throw.\<close>

lemma highlight_section_literal:
  assumes "selector_engine_ok r" and "css_plain (section_id t x)"
  shows "highlight_section r x t = Inr (highlight_literal x t)"
proof -
  have "querySelector r t (nav_link_selector (section_id t x)) = Inr (section_link t x)"
    using assms by (simp add: selector_engine_ok_def section_link_def)
  then show ?thesis
    by (simp add: highlight_section_def highlight_literal_def in_section_def Let_def
        section_id_def [symmetric] split: option.split)
qed

lemma highlight_sections_literal:
  assumes "selector_engine_ok r" and "list_all (\<lambda>x. css_plain (section_id s x)) secs"
    and "same_layout s t"
  shows "highlight_sections r secs t = Inr (fold highlight_literal secs t)"
  using assms(2,3)
proof (induction secs arbitrary: t)
  case Nil
  then show ?case by simp
next
  case (Cons x xs)
  have "css_plain (section_id t x)"
    using Cons.prems by (simp add: same_layout_facts(3))
  then have step: "highlight_section r x t = Inr (highlight_literal x t)"
    using assms(1) by (rule highlight_section_literal [rotated])
  have "highlight_sections r xs (highlight_literal x t) =
        Inr (fold highlight_literal xs (highlight_literal x t))"
    using Cons.prems by (intro Cons.IH) (simp_all add: same_layout_literal)
  then show ?case
    using step by simp
qed

lemma selector_identifier_literal: "selector_identifier (nav_link_selector i) = Some i"
  by (simp add: selector_identifier_def nav_link_selector_def Let_def)

lemma sample_engine_ok: "selector_engine_ok sample_refs"
  by (simp add: selector_engine_ok_def sample_refs_def sample_querySelector_def
      selector_identifier_literal)

text \<open>
  Claim C3, as amended. Let \<^verbatim>\<open>querySelector\<close> read the selector of a literal identifier as
  CSS does, and let the identifiers of the sections be different from one another and
  literal: free of double quotes, backslashes, line breaks, NUL and unpaired surrogates. Then
  \<^verbatim>\<open>highlightNavLink\<close> returns, and the navigation link of a section carries \<^verbatim>\<open>active\<close>
  afterwards if and only if the scroll offset lies in the interval from \<open>offsetTop - 100\<close> to
  \<open>offsetTop - 100 + offsetHeight\<close> that is open at the lower bound and closed at the upper
  bound.
\<close>

theorem nav_link_active_iff:
  assumes "selector_engine_ok r"
    and "list_all (\<lambda>x. css_plain (string_of_attr (getAttribute s x ''id''))) (sections r)"
    and "distinct (map (\<lambda>x. string_of_attr (getAttribute s x ''id'')) (sections r))"
    and "sec \<in> set (sections r)"
    and "first_nav_link s (string_of_attr (getAttribute s sec ''id'')) = Some l"
  shows "\<exists>s'. highlightNavLink r s = Inr s' \<and>
           (classList_contains s' l ''active'' \<longleftrightarrow>
              of_int (offsetTop (elems s sec) - 100) < scrollY s \<and>
              scrollY s \<le> of_int (offsetTop (elems s sec) - 100 + offsetHeight (elems s sec)))"
proof -
  have ids: "section_id s = (\<lambda>x. string_of_attr (getAttribute s x ''id''))"
    by (rule ext) (simp add: section_id_def)
  have plain: "list_all (\<lambda>x. css_plain (section_id s x)) (sections r)"
    using assms(2) by (simp add: ids)
  have run: "highlightNavLink r s = Inr (fold highlight_literal (sections r) s)"
    unfolding highlightNavLink_def
    by (rule highlight_sections_literal [OF assms(1) plain same_layout_refl])
  have link: "section_link s sec = Some l"
    using assms(5) by (simp add: section_link_def section_id_def)
  have "classList_contains (fold highlight_literal (sections r) s) l ''active'' = in_section s sec"
    using assms(3,4) link by (intro fold_highlight_link) (simp_all add: ids)
  then show ?thesis
    using run by (simp add: in_section_def)
qed

theorem nav_link_active_iff_witness:
  "selector_engine_ok sample_refs \<and>
   list_all (\<lambda>x. css_plain (string_of_attr (getAttribute (sample_page\<lparr>scrollY := 900\<rparr>) x ''id'')))
     (sections sample_refs) \<and>
   distinct (map (\<lambda>x. string_of_attr (getAttribute (sample_page\<lparr>scrollY := 900\<rparr>) x ''id''))
     (sections sample_refs)) \<and>
   18 \<in> set (sections sample_refs) \<and>
   first_nav_link (sample_page\<lparr>scrollY := 900\<rparr>)
     (string_of_attr (getAttribute (sample_page\<lparr>scrollY := 900\<rparr>) 18 ''id'')) = Some 8 \<and>
   of_int (offsetTop (elems (sample_page\<lparr>scrollY := 900\<rparr>) 18) - 100)
     < scrollY (sample_page\<lparr>scrollY := 900\<rparr>) \<and>
   scrollY (sample_page\<lparr>scrollY := 900\<rparr>)
     \<le> of_int (offsetTop (elems (sample_page\<lparr>scrollY := 900\<rparr>) 18) - 100
         + offsetHeight (elems (sample_page\<lparr>scrollY := 900\<rparr>) 18)) \<and>
   (\<exists>s'. highlightNavLink sample_refs (sample_page\<lparr>scrollY := 900\<rparr>) = Inr s' \<and>
         classList_contains s' 8 ''active'')"
proof -
  have plain: "list_all
      (\<lambda>x. css_plain (string_of_attr (getAttribute (sample_page\<lparr>scrollY := 900\<rparr>) x ''id'')))
      (sections sample_refs)"
    by code_simp
  have ids: "distinct (map (\<lambda>x. string_of_attr (getAttribute (sample_page\<lparr>scrollY := 900\<rparr>) x ''id''))
     (sections sample_refs))"
    by code_simp
  have sec: "18 \<in> set (sections sample_refs)"
    by code_simp
  have link: "first_nav_link (sample_page\<lparr>scrollY := 900\<rparr>)
     (string_of_attr (getAttribute (sample_page\<lparr>scrollY := 900\<rparr>) 18 ''id'')) = Some 8"
    by code_simp
  have lower: "of_int (offsetTop (elems (sample_page\<lparr>scrollY := 900\<rparr>) 18) - 100)
     < scrollY (sample_page\<lparr>scrollY := 900\<rparr>)"
    by code_simp
  have upper: "scrollY (sample_page\<lparr>scrollY := 900\<rparr>)
     \<le> of_int (offsetTop (elems (sample_page\<lparr>scrollY := 900\<rparr>) 18) - 100
         + offsetHeight (elems (sample_page\<lparr>scrollY := 900\<rparr>) 18))"
    by code_simp
  have active: "\<exists>s'. highlightNavLink sample_refs (sample_page\<lparr>scrollY := 900\<rparr>) = Inr s' \<and>
         classList_contains s' 8 ''active''"
    using nav_link_active_iff [OF sample_engine_ok plain ids sec link] lower upper by blast
  show ?thesis
    by (intro conjI sample_engine_ok plain ids sec link lower upper active)
qed

text \<open>
  The claim as it was stated, with the interval closed at the lower bound and open at the
  upper bound, fails at both bounds: at the scroll offset 500, the lower bound of the
  section \<^verbatim>\<open>about\<close> of the sample page, the link is not active; at 900, the upper bound,
  it is. It also fails for an identifier that is not literal: with a double quote in the
  identifier of the first section the selector text is ill-formed, \<^verbatim>\<open>querySelector\<close> throws
  (as the engine of the sample does), the loop ends there, and the link of the second
  section is not active at the offset 1000, inside its interval.
\<close>

theorem nav_link_interval_counterexample:
  "\<not> (classList_contains
        (page_after (highlightNavLink sample_refs (sample_page\<lparr>scrollY := 500\<rparr>))) 8 ''active'' \<longleftrightarrow>
        of_int (offsetTop (elems (sample_page\<lparr>scrollY := 500\<rparr>) 18) - 100)
          \<le> scrollY (sample_page\<lparr>scrollY := 500\<rparr>) \<and>
        scrollY (sample_page\<lparr>scrollY := 500\<rparr>)
          < of_int (offsetTop (elems (sample_page\<lparr>scrollY := 500\<rparr>) 18) - 100
              + offsetHeight (elems (sample_page\<lparr>scrollY := 500\<rparr>) 18))) \<and>
   \<not> (classList_contains
        (page_after (highlightNavLink sample_refs (sample_page\<lparr>scrollY := 900\<rparr>))) 8 ''active'' \<longleftrightarrow>
        of_int (offsetTop (elems (sample_page\<lparr>scrollY := 900\<rparr>) 18) - 100)
          \<le> scrollY (sample_page\<lparr>scrollY := 900\<rparr>) \<and>
        scrollY (sample_page\<lparr>scrollY := 900\<rparr>)
          < of_int (offsetTop (elems (sample_page\<lparr>scrollY := 900\<rparr>) 18) - 100
              + offsetHeight (elems (sample_page\<lparr>scrollY := 900\<rparr>) 18))) \<and>
   \<not> (classList_contains (page_after (highlightNavLink sample_refs quoted_id_page)) 9 ''active'' \<longleftrightarrow>
        of_int (offsetTop (elems quoted_id_page 19) - 100) \<le> scrollY quoted_id_page \<and>
        scrollY quoted_id_page
          < of_int (offsetTop (elems quoted_id_page 19) - 100
              + offsetHeight (elems quoted_id_page 19)))"
  by code_simp

section \<open>Feature tabs: one button, one pane\<close>

lemma fold_remove_static [simp]:
  "node_count (fold (\<lambda>b. classList_remove b d) ns s) = node_count s"
  "getAttribute (fold (\<lambda>b. classList_remove b d) ns s) n a = getAttribute s n a"
  by (induction ns arbitrary: s) simp_all

lemma contains_fold_remove:
  "classList_contains (fold (\<lambda>b. classList_remove b d) ns s) n c =
     (\<not> (n \<in> set ns \<and> c = d) \<and> classList_contains s n c)"
  by (induction ns arbitrary: s) (auto simp: contains_remove)

lemma getElementById_static:
  assumes "node_count t = node_count s" and "\<And>n. getAttribute t n ''id'' = getAttribute s n ''id''"
  shows "getElementById t i = getElementById s i"
  using assms by (simp add: getElementById_def)

lemma getElementById_id:
  "getElementById s i = Some p \<Longrightarrow> getAttribute s p ''id'' = Some i"
  by (auto simp: getElementById_def find_Some_iff split: if_splits)

lemma tabBtn_click_cases:
  "tabBtn_click r b s =
     (case tab_target s b of
        None \<Rightarrow> Inl (TypeError, classList_add b ''active''
                  (fold (\<lambda>p. classList_remove p ''active'') (tabPanes r)
                    (fold (\<lambda>b. classList_remove b ''active'') (tabBtns r) s)))
      | Some p \<Rightarrow> Inr (classList_add p ''active'' (classList_add b ''active''
                  (fold (\<lambda>p. classList_remove p ''active'') (tabPanes r)
                    (fold (\<lambda>b. classList_remove b ''active'') (tabBtns r) s)))))"
proof -
  have "getElementById (classList_add b ''active''
          (fold (\<lambda>p. classList_remove p ''active'') (tabPanes r)
            (fold (\<lambda>b. classList_remove b ''active'') (tabBtns r) s))) i = getElementById s i" for i
    by (rule getElementById_static) simp_all
  then show ?thesis
    by (simp add: tabBtn_click_def tab_target_def Let_def)
qed

lemma click_static [simp]:
  "node_count (page_after (tabBtn_click r b s)) = node_count s"
  "getAttribute (page_after (tabBtn_click r b s)) n a = getAttribute s n a"
  by (simp_all add: tabBtn_click_cases page_after_def split: option.split)

lemma click_active:
  "classList_contains (page_after (tabBtn_click r b s)) n ''active'' =
     (n = b \<or> tab_target s b = Some n \<or>
      (classList_contains s n ''active'' \<and> n \<notin> set (tabBtns r) \<and> n \<notin> set (tabPanes r)))"
  by (auto simp: tabBtn_click_cases page_after_def contains_add contains_fold_remove
      split: option.split)

lemma tab_target_click [simp]: "tab_target (page_after (tabBtn_click r b s)) c = tab_target s c"
proof -
  have "getElementById (page_after (tabBtn_click r b s)) i = getElementById s i" for i
    by (rule getElementById_static) simp_all
  then show ?thesis
    by (simp add: tab_target_def)
qed

lemma tabs_name_panes_alt:
  "tabs_name_panes r s =
     list_all (\<lambda>b. case tab_target s b of None \<Rightarrow> False | Some p \<Rightarrow> p \<in> set (tabPanes r))
       (tabBtns r)"
  by (simp add: tabs_name_panes_def tab_target_def)

lemma tabs_name_panes_click [simp]:
  "tabs_name_panes r (page_after (tabBtn_click r b s)) = tabs_name_panes r s"
  by (simp add: tabs_name_panes_alt)

lemma tab_clicks_static [simp]:
  "tabs_name_panes r (tab_clicks r bs s) = tabs_name_panes r s"
  "getAttribute (tab_clicks r bs s) n a = getAttribute s n a"
  by (induction bs arbitrary: s) (simp_all add: tab_clicks_def)

lemma tab_clicks_snoc:
  "tab_clicks r (bs @ [b]) s = page_after (tabBtn_click r b (tab_clicks r bs s))"
  by (simp add: tab_clicks_def)

lemma one_click:
  assumes disj: "set (tabBtns r) \<inter> set (tabPanes r) = {}"
    and named: "tabs_name_panes r s" and b: "b \<in> set (tabBtns r)"
  shows "\<exists>p. tabBtn_click r b s = Inr (page_after (tabBtn_click r b s)) \<and>
             active_nodes (page_after (tabBtn_click r b s)) (tabBtns r) = {b} \<and>
             active_nodes (page_after (tabBtn_click r b s)) (tabPanes r) = {p} \<and>
             getAttribute s p ''id'' = Some (string_of_attr (getAttribute s b ''data-tab''))"
proof -
  from named b obtain p where p: "tab_target s b = Some p" "p \<in> set (tabPanes r)"
    by (auto simp: tabs_name_panes_alt list_all_iff split: option.splits)
  have "tabBtn_click r b s = Inr (page_after (tabBtn_click r b s))"
    using p(1) by (simp add: tabBtn_click_cases page_after_def)
  moreover have "active_nodes (page_after (tabBtn_click r b s)) (tabBtns r) = {b}"
    using disj p b by (auto simp: active_nodes_def click_active)
  moreover have "active_nodes (page_after (tabBtn_click r b s)) (tabPanes r) = {p}"
    using disj p b by (auto simp: active_nodes_def click_active)
  moreover have "getAttribute s p ''id'' = Some (string_of_attr (getAttribute s b ''data-tab''))"
    using p(1) by (simp add: tab_target_def getElementById_id)
  ultimately show ?thesis by blast
qed

lemma click_fault:
  assumes none: "tab_target s b = None"
    and b: "b \<in> set (tabBtns r)" and not_pane: "b \<notin> set (tabPanes r)"
  shows "\<exists>s'. tabBtn_click r b s = Inl (TypeError, s') \<and>
              active_nodes s' (tabBtns r) = {b} \<and> active_nodes s' (tabPanes r) = {}"
proof -
  have "tabBtn_click r b s = Inl (TypeError, page_after (tabBtn_click r b s))"
    using none by (simp add: tabBtn_click_cases page_after_def)
  moreover have "active_nodes (page_after (tabBtn_click r b s)) (tabBtns r) = {b}"
    using b none by (auto simp: active_nodes_def click_active)
  moreover have "active_nodes (page_after (tabBtn_click r b s)) (tabPanes r) = {}"
    using not_pane none by (auto simp: active_nodes_def click_active)
  ultimately show ?thesis by blast
qed

text \<open>
  Claim C4. Let no element be both a tab button and a tab pane, and let every tab button
  name a tab pane: \<^verbatim>\<open>getElementById\<close> of its \<^verbatim>\<open>data-tab\<close> attribute is one of the panes.
  After any non-empty sequence of clicks on tab buttons, the tab buttons that carry
  \<^verbatim>\<open>active\<close> are exactly the button clicked last, the tab panes that carry it are exactly
  one pane, and that pane's identifier is the \<^verbatim>\<open>data-tab\<close> attribute of the button.
\<close>

theorem tab_selection_single:
  assumes "set (tabBtns r) \<inter> set (tabPanes r) = {}"
    and "tabs_name_panes r s"
    and "clicks \<noteq> []" and "set clicks \<subseteq> set (tabBtns r)"
  shows "\<exists>p. active_nodes (tab_clicks r clicks s) (tabBtns r) = {last clicks} \<and>
             active_nodes (tab_clicks r clicks s) (tabPanes r) = {p} \<and>
             getAttribute (tab_clicks r clicks s) p ''id'' =
               Some (string_of_attr (getAttribute (tab_clicks r clicks s) (last clicks) ''data-tab''))"
proof -
  from assms(3) obtain bs b where clicks: "clicks = bs @ [b]"
    by (metis rev_exhaust)
  then have b: "b \<in> set (tabBtns r)"
    using assms(4) by simp
  have named: "tabs_name_panes r (tab_clicks r bs s)"
    using assms(2) by simp
  from one_click [OF assms(1) named b] show ?thesis
    unfolding clicks by (auto simp: tab_clicks_snoc)
qed

theorem tab_selection_single_witness:
  "set (tabBtns sample_refs) \<inter> set (tabPanes sample_refs) = {} \<and>
   tabs_name_panes sample_refs sample_page \<and>
   [12, 11, 12::nat] \<noteq> [] \<and> set [12, 11, 12] \<subseteq> set (tabBtns sample_refs) \<and>
   (\<exists>p. active_nodes (tab_clicks sample_refs [12, 11, 12] sample_page) (tabBtns sample_refs)
           = {last [12, 11, 12]} \<and>
        active_nodes (tab_clicks sample_refs [12, 11, 12] sample_page) (tabPanes sample_refs) = {p} \<and>
        getAttribute (tab_clicks sample_refs [12, 11, 12] sample_page) p ''id'' =
          Some (string_of_attr
            (getAttribute (tab_clicks sample_refs [12, 11, 12] sample_page) (last [12, 11, 12])
              ''data-tab'')))"
proof -
  have disj: "set (tabBtns sample_refs) \<inter> set (tabPanes sample_refs) = {}"
    by code_simp
  have named: "tabs_name_panes sample_refs sample_page"
    by code_simp
  have ne: "[12, 11, 12::nat] \<noteq> []"
    by simp
  have sub: "set [12, 11, 12] \<subseteq> set (tabBtns sample_refs)"
    by code_simp
  note single = tab_selection_single [OF disj named ne sub]
  show ?thesis
    by (intro conjI disj named ne sub single)
qed

section \<open>Feature tabs: a button that names no element\<close>

text \<open>
  Claim C10, as amended. When the \<^verbatim>\<open>data-tab\<close> attribute of a tab button (which is not
  itself a tab pane) is the identifier of no element, its click handler ends with a
  \<^verbatim>\<open>TypeError\<close> after it has removed \<^verbatim>\<open>active\<close> from every tab button and pane and added it
  to the clicked button: the page is left with exactly that one active tab button and no
  active tab pane.
\<close>

theorem tab_click_fault:
  assumes "getElementById s (string_of_attr (getAttribute s b ''data-tab'')) = None"
    and "b \<in> set (tabBtns r)" and "b \<notin> set (tabPanes r)"
  shows "\<exists>s'. tabBtn_click r b s = Inl (TypeError, s') \<and>
              active_nodes s' (tabBtns r) = {b} \<and> active_nodes s' (tabPanes r) = {}"
  using assms click_fault [of s b r] by (simp add: tab_target_def)

theorem tab_click_fault_witness:
  "getElementById orphan_tab_page (string_of_attr (getAttribute orphan_tab_page 12 ''data-tab'')) = None \<and>
   12 \<in> set (tabBtns sample_refs) \<and> 12 \<notin> set (tabPanes sample_refs) \<and>
   (\<exists>s'. tabBtn_click sample_refs 12 orphan_tab_page = Inl (TypeError, s') \<and>
         active_nodes s' (tabBtns sample_refs) = {12} \<and> active_nodes s' (tabPanes sample_refs) = {})"
proof -
  have none: "getElementById orphan_tab_page
      (string_of_attr (getAttribute orphan_tab_page 12 ''data-tab'')) = None"
    by code_simp
  have btn: "12 \<in> set (tabBtns sample_refs)"
    by code_simp
  have not_pane: "12 \<notin> set (tabPanes sample_refs)"
    by code_simp
  note fault = tab_click_fault [OF none btn not_pane]
  show ?thesis
    by (intro conjI none btn not_pane fault)
qed

text \<open>
  The claim as it was stated says that the faulting click leaves no active tab button; on
  the sample page with a button that names no element, the clicked button 12 is active
  after the fault.
\<close>

theorem tab_click_fault_counterexample:
  "getElementById orphan_tab_page (string_of_attr (getAttribute orphan_tab_page 12 ''data-tab'')) = None \<and>
   12 \<in> set (tabBtns sample_refs) \<and>
   \<not> (active_nodes (page_after (tabBtn_click sample_refs 12 orphan_tab_page)) (tabBtns sample_refs) = {} \<and>
      active_nodes (page_after (tabBtn_click sample_refs 12 orphan_tab_page)) (tabPanes sample_refs) = {})"
proof -
  have none: "getElementById orphan_tab_page
      (string_of_attr (getAttribute orphan_tab_page 12 ''data-tab'')) = None"
    by code_simp
  have btn: "12 \<in> set (tabBtns sample_refs)"
    by code_simp
  have "classList_contains (page_after (tabBtn_click sample_refs 12 orphan_tab_page)) 12 ''active''"
    by (simp add: click_active)
  then have "12 \<in> active_nodes (page_after (tabBtn_click sample_refs 12 orphan_tab_page))
      (tabBtns sample_refs)"
    using btn by (simp add: active_nodes_def)
  then show ?thesis
    using none btn by blast
qed

section \<open>Counters: how an interval runs\<close>

lemma start_counter_timer:
  "timer_at (length (intervals s)) (start_counter c s) c
     (parseInt (string_of_attr (getAttribute s c ''data-target''))) 0"
  by (simp add: timer_at_def start_counter_def Let_def)

lemma start_counter_delay:
  "delay (intervals (start_counter c s) ! length (intervals s)) =
     interval_delay (parseInt (string_of_attr (getAttribute s c ''data-target'')))"
  by (simp add: start_counter_def Let_def)

lemma tick_step:
  assumes "timer_at i s c tgt k"
  shows "textContent (elems (counter_tick i s) c) = decimal (js_succ k)"
    and "\<not> js_ge (js_succ k) tgt \<Longrightarrow> timer_at i (counter_tick i s) c tgt (js_succ k)"
    and "js_ge (js_succ k) tgt \<Longrightarrow> \<not> timer_active i (counter_tick i s)"
  using assms
  by (simp_all add: timer_at_def counter_tick_def Let_def set_textContent_def
      elems_update_element timer_active_def)

lemma timer_at_active: "timer_at i s c tgt k \<Longrightarrow> timer_active i s"
  by (simp add: timer_at_def timer_active_def)

lemma js_succ_exact: "int k < 2 ^ 53 \<Longrightarrow> js_succ k = Suc k"
  by (simp add: js_succ_def)

lemma js_succ_bounded: "int k \<le> 2 ^ 53 \<Longrightarrow> int (js_succ k) \<le> 2 ^ 53"
  by (simp add: js_succ_def)

lemma run_counts:
  assumes "timer_at i s c (Num T) k" and "int k < T" and "T \<le> 2 ^ 53"
  shows "\<exists>s2. run_interval i s n = Some (n + (nat T - k), s2) \<and>
              textContent (elems s2 c) = decimal (nat T) \<and> \<not> timer_active i s2"
  using assms(1,2)
proof (induction "nat T - k" arbitrary: k s n)
  case 0
  then show ?case by simp
next
  case (Suc m)
  have exact: "js_succ k = Suc k"
    using Suc.prems(2) assms(3) by (simp add: js_succ_exact)
  note tick = tick_step [OF Suc.prems(1), unfolded exact]
  have act: "timer_active i s"
    using Suc.prems(1) by (rule timer_at_active)
  show ?case
  proof (cases "int (Suc k) < T")
    case True
    then have "\<not> js_ge (Suc k) (Num T)"
      by (simp add: js_ge_def)
    then have at: "timer_at i (counter_tick i s) c (Num T) (Suc k)"
      by (rule tick(2))
    have m: "m = nat T - Suc k"
      using Suc.hyps(2) by simp
    from Suc.hyps(1) [OF m at True, of "Suc n"] obtain s2 where
      "run_interval i (counter_tick i s) (Suc n) = Some (Suc n + (nat T - Suc k), s2)"
      "textContent (elems s2 c) = decimal (nat T)" "\<not> timer_active i s2"
      by blast
    moreover have "Suc n + (nat T - Suc k) = n + (nat T - k)"
      using True by simp
    ultimately show ?thesis
      using act by (subst run_interval.simps) auto
  next
    case False
    then have last: "nat T = Suc k"
      using Suc.prems(2) by simp
    then have "js_ge (Suc k) (Num T)"
      by (simp add: js_ge_def)
    then have stop: "\<not> timer_active i (counter_tick i s)"
      by (rule tick(3))
    have "run_interval i s n = run_interval i (counter_tick i s) (Suc n)"
      using act by (subst run_interval.simps) simp
    also have "\<dots> = Some (Suc n, counter_tick i s)"
      using stop by (subst run_interval.simps) simp
    finally show ?thesis
      using stop tick(1) last by simp
  qed
qed

lemma run_once:
  assumes "timer_at i s c tgt 0" and "js_ge 1 tgt"
  shows "\<exists>s2. run_interval i s n = Some (Suc n, s2) \<and> textContent (elems s2 c) = decimal 1 \<and>
              \<not> timer_active i s2"
proof -
  have first: "js_succ 0 = Suc 0"
    by (simp add: js_succ_def)
  note tick = tick_step [OF assms(1), unfolded first]
  have stop: "\<not> timer_active i (counter_tick i s)"
    using assms(2) tick(3) by simp
  have "run_interval i s n = run_interval i (counter_tick i s) (Suc n)"
    using timer_at_active [OF assms(1)] by (subst run_interval.simps) simp
  also have "\<dots> = Some (Suc n, counter_tick i s)"
    using stop by (subst run_interval.simps) simp
  finally show ?thesis
    using stop tick(1) by simp
qed

lemma fire_active: "timer_active i s \<Longrightarrow> fire_interval i s = counter_tick i s"
  by (simp add: fire_interval_def)

lemma fire_counts:
  assumes "timer_at i s c tgt k" and "\<forall>j. k < j \<and> j \<le> k + m \<longrightarrow> \<not> js_ge j tgt"
    and "int (k + m) \<le> 2 ^ 53"
  shows "timer_at i ((fire_interval i ^^ m) s) c tgt (k + m)"
  using assms(2,3)
proof (induction m)
  case 0
  then show ?case using assms(1) by simp
next
  case (Suc m)
  then have at: "timer_at i ((fire_interval i ^^ m) s) c tgt (k + m)"
    by simp
  have exact: "js_succ (k + m) = Suc (k + m)"
    using Suc.prems(2) by (simp add: js_succ_exact)
  have "\<not> js_ge (Suc (k + m)) tgt"
    using Suc.prems by simp
  then show ?case
    using tick_step(2) [OF at] timer_at_active [OF at] by (simp add: fire_active exact)
qed

lemma fire_text:
  assumes "timer_at i s c tgt k" and "\<forall>j. k < j \<and> j \<le> k + m \<longrightarrow> \<not> js_ge j tgt"
    and "int (k + m) < 2 ^ 53"
  shows "textContent (elems ((fire_interval i ^^ Suc m) s) c) = decimal (Suc (k + m))"
proof -
  have at: "timer_at i ((fire_interval i ^^ m) s) c tgt (k + m)"
    using assms by (intro fire_counts) simp_all
  have exact: "js_succ (k + m) = Suc (k + m)"
    using assms(3) by (simp add: js_succ_exact)
  show ?thesis
    using tick_step(1) [OF at] timer_at_active [OF at] by (simp add: fire_active exact)
qed

text \<open>
  A target that no count up to \<open>2^53\<close> reaches: the timer stays, whatever number of ticks
  has been fired, and its run has no end.
\<close>

lemma fire_stays:
  assumes never: "\<And>j. int j \<le> 2 ^ 53 \<Longrightarrow> \<not> js_ge j tgt"
    and "timer_at i s c tgt k" and "int k \<le> 2 ^ 53"
  shows "\<exists>k'. int k' \<le> 2 ^ 53 \<and> timer_at i ((fire_interval i ^^ m) s) c tgt k'"
proof (induction m)
  case 0
  then show ?case using assms(2,3) by auto
next
  case (Suc m)
  then obtain k' where k': "int k' \<le> 2 ^ 53" "timer_at i ((fire_interval i ^^ m) s) c tgt k'"
    by blast
  have bound: "int (js_succ k') \<le> 2 ^ 53"
    using k'(1) by (rule js_succ_bounded)
  then have "\<not> js_ge (js_succ k') tgt"
    by (rule never)
  then have "timer_at i (counter_tick i ((fire_interval i ^^ m) s)) c tgt (js_succ k')"
    by (rule tick_step(2) [OF k'(2)])
  then show ?case
    using bound timer_at_active [OF k'(2)] by (auto simp: fire_active)
qed

lemma run_never:
  assumes never: "\<And>j. int j \<le> 2 ^ 53 \<Longrightarrow> \<not> js_ge j tgt"
    and run: "run_interval i s n = Some y"
  shows "\<not> (\<exists>k. int k \<le> 2 ^ 53 \<and> timer_at i s c tgt k)"
proof (rule run_interval.raw_induct
    [where P = "\<lambda>i s n y. \<not> (\<exists>k. int k \<le> 2 ^ 53 \<and> timer_at i s c tgt k)", OF _ run])
  fix run i s n y
  assume IH: "\<And>i s n y. run i s n = Some y \<Longrightarrow> \<not> (\<exists>k. int k \<le> 2 ^ 53 \<and> timer_at i s c tgt k)"
    and step: "(if timer_active i s then run i (counter_tick i s) (Suc n) else Some (n, s)) = Some y"
  show "\<not> (\<exists>k. int k \<le> 2 ^ 53 \<and> timer_at i s c tgt k)"
  proof
    assume "\<exists>k. int k \<le> 2 ^ 53 \<and> timer_at i s c tgt k"
    then obtain k where k: "int k \<le> 2 ^ 53" and at: "timer_at i s c tgt k"
      by blast
    have bound: "int (js_succ k) \<le> 2 ^ 53"
      using k by (rule js_succ_bounded)
    then have "\<not> js_ge (js_succ k) tgt"
      by (rule never)
    then have next_at: "timer_at i (counter_tick i s) c tgt (js_succ k)"
      by (rule tick_step(2) [OF at])
    have "run i (counter_tick i s) (Suc n) = Some y"
      using step timer_at_active [OF at] by simp
    from IH [OF this] bound next_at show False by blast
  qed
qed

lemma run_endless:
  assumes "\<And>j. int j \<le> 2 ^ 53 \<Longrightarrow> \<not> js_ge j tgt" and "timer_at i s c tgt k" and "int k \<le> 2 ^ 53"
  shows "run_interval i s n = None"
proof (cases "run_interval i s n")
  case None
  then show ?thesis .
next
  case (Some y)
  from run_never [OF assms(1) Some, of c] assms(2,3) show ?thesis
    by blast
qed

lemma parseInt_null: "parseInt (js ''null'') = NaN"
  by code_simp

text \<open>
  Claim C2, as amended. Let the \<^verbatim>\<open>data-target\<close> attribute of a counter parse to an integer
  \<open>T\<close> from 1 to \<open>2^53\<close>. Once its animation has started, the delay of its interval is
  \<open>max(floor(2000/T), 10)\<close> milliseconds; the interval fires exactly \<open>T\<close> ticks and then is
  cleared, with the text \<open>T\<close> displayed; and before that every tick finds the timer active and
  raises the displayed number by one: after tick \<open>k + 1\<close> the text is \<open>k + 1\<close>.
\<close>

theorem counter_reaches_target:
  assumes "parseInt (string_of_attr (getAttribute s c ''data-target'')) = Num T"
    and "1 \<le> T" and "T \<le> 2 ^ 53"
  shows
    "delay (intervals (start_counter c s) ! length (intervals s)) = Num (max (2000 div T) 10) \<and>
     (\<exists>s2. run_interval (length (intervals s)) (start_counter c s) 0 = Some (nat T, s2) \<and>
           textContent (elems s2 c) = decimal (nat T) \<and>
           \<not> timer_active (length (intervals s)) s2) \<and>
     (\<forall>k. k < nat T \<longrightarrow>
           timer_active (length (intervals s)) ((fire_interval (length (intervals s)) ^^ k) (start_counter c s)) \<and>
           textContent (elems ((fire_interval (length (intervals s)) ^^ Suc k) (start_counter c s)) c)
             = decimal (Suc k))"
proof (intro conjI allI impI)
  note at = start_counter_timer [of s c, unfolded assms(1)]
  show "delay (intervals (start_counter c s) ! length (intervals s)) = Num (max (2000 div T) 10)"
    using assms by (simp add: start_counter_delay interval_delay_def)
  show "\<exists>s2. run_interval (length (intervals s)) (start_counter c s) 0 = Some (nat T, s2) \<and>
           textContent (elems s2 c) = decimal (nat T) \<and> \<not> timer_active (length (intervals s)) s2"
    using run_counts [OF at _ assms(3), of 0] assms(2) by simp
  fix k assume k: "k < nat T"
  then have before: "\<forall>j. 0 < j \<and> j \<le> 0 + k \<longrightarrow> \<not> js_ge j (Num T)"
    by (auto simp: js_ge_def)
  have small: "int (0 + k) < 2 ^ 53"
    using k assms(3) by simp
  then have room: "int (0 + k) \<le> 2 ^ 53"
    by simp
  show "timer_active (length (intervals s)) ((fire_interval (length (intervals s)) ^^ k) (start_counter c s))"
    using fire_counts [OF at before room] by (rule timer_at_active)
  show "textContent (elems ((fire_interval (length (intervals s)) ^^ Suc k) (start_counter c s)) c)
             = decimal (Suc k)"
    using fire_text [OF at before small] by simp
qed

theorem counter_reaches_target_witness:
  "parseInt (string_of_attr (getAttribute sample_page 16 ''data-target'')) = Num 3 \<and>
   (1::int) \<le> 3 \<and> (3::int) \<le> 2 ^ 53 \<and>
   delay (intervals (start_counter 16 sample_page) ! length (intervals sample_page))
     = Num (max (2000 div 3) 10) \<and>
   (\<exists>s2. run_interval (length (intervals sample_page)) (start_counter 16 sample_page) 0
           = Some (nat 3, s2) \<and>
         textContent (elems s2 16) = decimal (nat 3) \<and>
         \<not> timer_active (length (intervals sample_page)) s2) \<and>
   decimal (nat 3) = ''3'' \<and>
   parseInt (string_of_attr (getAttribute nbsp_target_page 16 ''data-target'')) = Num 5 \<and>
   (\<exists>s2. run_interval (length (intervals nbsp_target_page)) (start_counter 16 nbsp_target_page) 0
           = Some (nat 5, s2) \<and>
         textContent (elems s2 16) = decimal (nat 5) \<and>
         \<not> timer_active (length (intervals nbsp_target_page)) s2)"
proof -
  have tgt: "parseInt (string_of_attr (getAttribute sample_page 16 ''data-target'')) = Num 3"
    by code_simp
  have le: "(1::int) \<le> 3" "(3::int) \<le> 2 ^ 53"
    by simp_all
  have text3: "decimal (nat 3) = ''3''"
    by code_simp
  have nbsp: "parseInt (string_of_attr (getAttribute nbsp_target_page 16 ''data-target'')) = Num 5"
    by code_simp
  have le5: "(1::int) \<le> 5" "(5::int) \<le> 2 ^ 53"
    by simp_all
  note run = counter_reaches_target [OF tgt le]
  note run5 = counter_reaches_target [OF nbsp le5]
  show ?thesis
    by (intro conjI tgt le text3 nbsp run [THEN conjunct1] run [THEN conjunct2, THEN conjunct1]
        run5 [THEN conjunct2, THEN conjunct1])
qed

text \<open>
  The claim as it was stated gives \<open>ceil(T / max(floor(2000/T), 10))\<close> for the number of
  ticks. For the counter of the sample page, whose target is 3, that is 1, and the interval
  fires 3 ticks. The claim was also stated for every target from 1 on: with the target
  \<open>2^53 + 2\<close> the count stays at \<open>2^53\<close> and the run of the interval has no end.
\<close>

theorem counter_ticks_counterexample:
  "parseInt (string_of_attr (getAttribute sample_page 16 ''data-target'')) = Num 3 \<and>
   map_option fst (run_interval (length (intervals sample_page)) (start_counter 16 sample_page) 0)
     = Some 3 \<and>
   map_option fst (run_interval (length (intervals sample_page)) (start_counter 16 sample_page) 0)
     \<noteq> Some (nat (spec_tick_count 3)) \<and>
   parseInt (string_of_attr (getAttribute huge_target_page 16 ''data-target''))
     = Num 9007199254740994 \<and>
   run_interval (length (intervals huge_target_page)) (start_counter 16 huge_target_page) 0 = None"
proof -
  have tgt: "parseInt (string_of_attr (getAttribute sample_page 16 ''data-target'')) = Num 3"
    by code_simp
  have spec: "spec_tick_count 3 = 1"
    by code_simp
  note at = start_counter_timer [of sample_page 16, unfolded tgt]
  from run_counts [OF at, of 0] obtain s2 where
    "run_interval (length (intervals sample_page)) (start_counter 16 sample_page) 0
       = Some (0 + (nat 3 - 0), s2)"
    by auto
  then have ticks: "map_option fst
      (run_interval (length (intervals sample_page)) (start_counter 16 sample_page) 0) = Some 3"
    by simp
  have "Some (3::nat) \<noteq> Some (nat (spec_tick_count 3))"
    by (simp add: spec)
  then have differ: "map_option fst
      (run_interval (length (intervals sample_page)) (start_counter 16 sample_page) 0)
     \<noteq> Some (nat (spec_tick_count 3))"
    unfolding ticks .
  have huge: "parseInt (string_of_attr (getAttribute huge_target_page 16 ''data-target''))
     = Num 9007199254740994"
    by code_simp
  note at_huge = start_counter_timer [of huge_target_page 16, unfolded huge]
  have beyond: "\<And>j. int j \<le> 2 ^ 53 \<Longrightarrow> \<not> js_ge j (Num 9007199254740994)"
    by (simp add: js_ge_def)
  have endless: "run_interval (length (intervals huge_target_page))
      (start_counter 16 huge_target_page) 0 = None"
    by (rule run_endless [OF beyond at_huge]) simp_all
  show ?thesis
    by (intro conjI tgt ticks differ huge endless)
qed

text \<open>
  Claim C9. When the \<^verbatim>\<open>data-target\<close> attribute is absent or does not parse to a number, the
  interval of the counter is never cleared: its run has no end, and the timer is active after
  any number of ticks. When the target is zero or negative, the interval is cleared by its
  first tick, with the text 1 displayed.
\<close>

theorem counter_without_target:
  "(getAttribute s c ''data-target'' = None \<or>
    parseInt (string_of_attr (getAttribute s c ''data-target'')) = NaN \<longrightarrow>
      run_interval (length (intervals s)) (start_counter c s) 0 = None \<and>
      (\<forall>k. timer_active (length (intervals s))
             ((fire_interval (length (intervals s)) ^^ k) (start_counter c s)))) \<and>
   (parseInt (string_of_attr (getAttribute s c ''data-target'')) = NegZero \<or>
    parseInt (string_of_attr (getAttribute s c ''data-target'')) = NegInfinity \<or>
    (\<exists>T. parseInt (string_of_attr (getAttribute s c ''data-target'')) = Num T \<and> T \<le> 0) \<longrightarrow>
      (\<exists>s2. run_interval (length (intervals s)) (start_counter c s) 0 = Some (1, s2) \<and>
            textContent (elems s2 c) = ''1'' \<and> \<not> timer_active (length (intervals s)) s2))"
proof (intro conjI impI allI)
  note at = start_counter_timer [of s c]
  assume "getAttribute s c ''data-target'' = None \<or>
    parseInt (string_of_attr (getAttribute s c ''data-target'')) = NaN"
  then have nan: "parseInt (string_of_attr (getAttribute s c ''data-target'')) = NaN"
    by (auto simp: string_of_attr_def parseInt_null)
  note at_nan = at [unfolded nan]
  have never: "\<And>j. int j \<le> 2 ^ 53 \<Longrightarrow> \<not> js_ge j NaN"
    by (simp add: js_ge_def)
  show "run_interval (length (intervals s)) (start_counter c s) 0 = None"
    by (rule run_endless [OF never at_nan]) simp_all
  fix k
  from fire_stays [OF never at_nan, of k]
  show "timer_active (length (intervals s)) ((fire_interval (length (intervals s)) ^^ k) (start_counter c s))"
    by (auto intro: timer_at_active)
next
  note at = start_counter_timer [of s c]
  assume "parseInt (string_of_attr (getAttribute s c ''data-target'')) = NegZero \<or>
    parseInt (string_of_attr (getAttribute s c ''data-target'')) = NegInfinity \<or>
    (\<exists>T. parseInt (string_of_attr (getAttribute s c ''data-target'')) = Num T \<and> T \<le> 0)"
  then have "js_ge 1 (parseInt (string_of_attr (getAttribute s c ''data-target'')))"
    by (auto simp: js_ge_def)
  from run_once [OF at this, of 0]
  show "\<exists>s2. run_interval (length (intervals s)) (start_counter c s) 0 = Some (1, s2) \<and>
            textContent (elems s2 c) = ''1'' \<and> \<not> timer_active (length (intervals s)) s2"
    by (simp add: decimal.simps digit_char_def)
qed

theorem counter_without_target_witness:
  "getAttribute sample_page 17 ''data-target'' = None \<and>
   run_interval (length (intervals sample_page)) (start_counter 17 sample_page) 0 = None \<and>
   parseInt (string_of_attr (getAttribute negative_target_page 16 ''data-target'')) = Num (- 5) \<and>
   (- 5 :: int) \<le> 0 \<and>
   (\<exists>s2. run_interval (length (intervals negative_target_page))
           (start_counter 16 negative_target_page) 0 = Some (1, s2) \<and>
         textContent (elems s2 16) = ''1'' \<and>
         \<not> timer_active (length (intervals negative_target_page)) s2)"
proof -
  have absent: "getAttribute sample_page 17 ''data-target'' = None"
    by code_simp
  have tgt: "parseInt (string_of_attr (getAttribute negative_target_page 16 ''data-target''))
      = Num (- 5)"
    by code_simp
  have le: "(- 5 :: int) \<le> 0"
    by simp
  have never: "run_interval (length (intervals sample_page)) (start_counter 17 sample_page) 0 = None"
    using counter_without_target [of sample_page 17] absent by blast
  have once: "\<exists>s2. run_interval (length (intervals negative_target_page))
           (start_counter 16 negative_target_page) 0 = Some (1, s2) \<and>
         textContent (elems s2 16) = ''1'' \<and>
         \<not> timer_active (length (intervals negative_target_page)) s2"
    using counter_without_target [of negative_target_page 16] tgt le by blast
  show ?thesis
    by (intro conjI absent never tgt le once)
qed

section \<open>Counters: started at most once\<close>

lemma timers_of_class_ops [simp]:
  "timers_of (classList_add m d s) c = timers_of s c"
  "timers_of (classList_remove m d s) c = timers_of s c"
  by (simp_all add: timers_of_def)

lemma start_counter_effect:
  "intervals (start_counter x s) = intervals s @
     [\<lparr>owner = x, target = parseInt (string_of_attr (getAttribute s x ''data-target'')), count = 0,
       delay = interval_delay (parseInt (string_of_attr (getAttribute s x ''data-target''))),
       cleared = False\<rparr>]"
  "classList_contains (start_counter x s) c d = ((c = x \<and> d = ''animated'') \<or> classList_contains s c d)"
  by (simp_all add: start_counter_def Let_def contains_add)

lemma animateCounter_keeps:
  assumes "classList_contains s c ''animated''"
  shows "timers_of (animateCounter x s) c = timers_of s c"
    and "classList_contains (animateCounter x s) c ''animated''"
  using assms
  by (auto simp: animateCounter_def timers_of_def start_counter_effect)

lemma animateCounters_keeps:
  assumes "classList_contains s c ''animated''"
  shows "timers_of (fold animateCounter xs s) c = timers_of s c \<and>
         classList_contains (fold animateCounter xs s) c ''animated''"
  using assms
proof (induction xs arbitrary: s)
  case Nil
  then show ?case by simp
next
  case (Cons x xs)
  from Cons.IH [OF animateCounter_keeps(2) [OF Cons.prems, of x]]
  show ?case
    by (simp add: animateCounter_keeps(1) [OF Cons.prems])
qed

lemma animateCounter_appends: "\<exists>new. intervals (animateCounter x s) = intervals s @ new"
  by (simp add: animateCounter_def start_counter_effect)

lemma animateCounters_appends: "\<exists>new. intervals (fold animateCounter xs s) = intervals s @ new"
proof (induction xs arbitrary: s)
  case Nil
  then show ?case by simp
next
  case (Cons x xs)
  obtain a where a: "intervals (animateCounter x s) = intervals s @ a"
    using animateCounter_appends by blast
  obtain b where "intervals (fold animateCounter xs (animateCounter x s)) = intervals (animateCounter x s) @ b"
    using Cons.IH by blast
  then show ?case
    using a by simp
qed

lemma started_once_animateCounter:
  assumes "started_once s"
  shows "started_once (animateCounter x s)"
proof (cases "rect_top s x < of_int (innerHeight s) \<and> \<not> classList_contains s x ''animated''")
  case False
  then have "animateCounter x s = s"
    by (auto simp: animateCounter_def)
  then show ?thesis
    using assms by simp
next
  case True
  then have "length (timers_of s x) \<le> 0"
    using assms [unfolded started_once_def, rule_format, of x] by simp
  then have none: "timers_of s x = []"
    by simp
  have "length (timers_of (start_counter x s) c) \<le>
        (if classList_contains (start_counter x s) c ''animated'' then 1 else 0)" for c
    using assms none
    by (cases "c = x") (auto simp: started_once_def timers_of_def start_counter_effect)
  then show ?thesis
    using True by (simp add: animateCounter_def started_once_def)
qed

lemma started_once_animateCounters:
  "started_once s \<Longrightarrow> started_once (fold animateCounter xs s)"
  by (induction xs arbitrary: s) (simp_all add: started_once_animateCounter)

lemma started_once_class_op:
  assumes "started_once s" and "d \<noteq> ''animated''"
  shows "started_once (classList_add m d s)" and "started_once (classList_remove m d s)"
  using assms by (simp_all add: started_once_def contains_add contains_remove)

lemma started_once_handleScroll: "started_once s \<Longrightarrow> started_once (handleScroll r s)"
  by (simp add: handleScroll_def Let_def animateCounters_def started_once_animateCounters
      started_once_class_op)

lemma started_once_viewport:
  "started_once (s\<lparr>scrollY := y, innerHeight := h, rect_top := f\<rparr>) = started_once s"
  by (simp add: started_once_def timers_of_def classList_contains_def)

lemma started_once_scroll_events:
  "started_once s \<Longrightarrow> started_once (fold (scroll_event r) vs s)"
  by (induction vs arbitrary: s)
    (simp_all add: scroll_event_def started_once_handleScroll started_once_viewport)

lemma handleScroll_keeps:
  assumes "classList_contains s c ''animated''"
  shows "timers_of (handleScroll r s) c = timers_of s c \<and>
         classList_contains (handleScroll r s) c ''animated''"
proof -
  let ?s1 = "if scrollY s > 50 then classList_add (header r) ''scrolled'' s
             else classList_remove (header r) ''scrolled'' s"
  let ?s2 = "if scrollY s > 500 then classList_add (backToTopBtn r) ''active'' ?s1
             else classList_remove (backToTopBtn r) ''active'' ?s1"
  have "classList_contains ?s2 c ''animated''"
    using assms by (simp add: contains_add contains_remove)
  from animateCounters_keeps [OF this, of "counterItems r"]
  show ?thesis
    by (simp add: handleScroll_def Let_def animateCounters_def)
qed

text \<open>
  Claim C6. When a counter element carries \<^verbatim>\<open>animated\<close>, a run of \<^verbatim>\<open>handleScroll\<close> starts
  no interval for it and leaves it marked; a run only ever appends to the list of timers;
  and from a page without timers, after any sequence of scroll events (each with its own
  viewport) every element has at most one interval.
\<close>

theorem counter_starts_once:
  "(classList_contains s c ''animated'' \<longrightarrow>
      timers_of (handleScroll r s) c = timers_of s c \<and>
      classList_contains (handleScroll r s) c ''animated'') \<and>
   (\<exists>new. intervals (handleScroll r s) = intervals s @ new) \<and>
   (intervals s = [] \<longrightarrow> length (timers_of (fold (scroll_event r) vs s) c) \<le> 1)"
proof (intro conjI impI)
  assume "classList_contains s c ''animated''"
  then show "timers_of (handleScroll r s) c = timers_of s c"
    and "classList_contains (handleScroll r s) c ''animated''"
    using handleScroll_keeps by simp_all
next
  show "\<exists>new. intervals (handleScroll r s) = intervals s @ new"
    using animateCounters_appends [of "counterItems r"]
    by (simp add: handleScroll_def Let_def animateCounters_def)
       (metis classList_ops_fields(1,2))
next
  assume "intervals s = []"
  then have "started_once s"
    by (simp add: started_once_def timers_of_def)
  then have "started_once (fold (scroll_event r) vs s)"
    by (rule started_once_scroll_events)
  then have "length (timers_of (fold (scroll_event r) vs s) c) \<le>
      (if classList_contains (fold (scroll_event r) vs s) c ''animated'' then 1 else 0)"
    by (simp add: started_once_def)
  then show "length (timers_of (fold (scroll_event r) vs s) c) \<le> 1"
    by (simp split: if_splits)
qed

theorem counter_starts_once_witness:
  "classList_contains (scroll_event sample_refs viewport_in sample_page) 16 ''animated'' \<and>
   length (timers_of (scroll_event sample_refs viewport_in sample_page) 16) = 1 \<and>
   timers_of (handleScroll sample_refs (scroll_event sample_refs viewport_in sample_page)) 16
     = timers_of (scroll_event sample_refs viewport_in sample_page) 16 \<and>
   classList_contains
     (handleScroll sample_refs (scroll_event sample_refs viewport_in sample_page)) 16 ''animated'' \<and>
   intervals sample_page = [] \<and>
   length (timers_of
     (fold (scroll_event sample_refs) [viewport_in, viewport_out, viewport_in] sample_page) 16) \<le> 1"
proof -
  have marked: "classList_contains (scroll_event sample_refs viewport_in sample_page) 16 ''animated''"
    by code_simp
  have one: "length (timers_of (scroll_event sample_refs viewport_in sample_page) 16) = 1"
    by code_simp
  have none: "intervals sample_page = []"
    by code_simp
  note again = counter_starts_once
    [of "scroll_event sample_refs viewport_in sample_page" 16 sample_refs]
  note events = counter_starts_once
    [of sample_page 16 sample_refs "[viewport_in, viewport_out, viewport_in]"]
  have kept: "timers_of (handleScroll sample_refs (scroll_event sample_refs viewport_in sample_page)) 16
     = timers_of (scroll_event sample_refs viewport_in sample_page) 16"
    "classList_contains
     (handleScroll sample_refs (scroll_event sample_refs viewport_in sample_page)) 16 ''animated''"
    using again marked by blast+
  have most: "length (timers_of
     (fold (scroll_event sample_refs) [viewport_in, viewport_out, viewport_in] sample_page) 16) \<le> 1"
    using events none by blast
  show ?thesis
    by (intro conjI marked one kept none most)
qed

section \<open>The write footprints of the modules\<close>

lemma differs_refl [simp]: "\<not> differs s s l"
  by (cases l) simp_all

lemma differs_trans: "differs s u l \<Longrightarrow> differs s t l \<or> differs t u l"
  by (cases l) auto

lemma writes_onlyI: "(\<And>s l. differs s (f s) l \<Longrightarrow> F l) \<Longrightarrow> writes_only F f"
  by (simp add: writes_only_def)

lemma writes_onlyD: "writes_only F f \<Longrightarrow> differs s (f s) l \<Longrightarrow> F l"
  by (simp add: writes_only_def)

lemma writes_only_id: "writes_only F (\<lambda>s. s)"
  by (simp add: writes_only_def)

lemma writes_only_comp:
  assumes "writes_only F f" and "writes_only F g"
  shows "writes_only F (\<lambda>s. g (f s))"
proof (rule writes_onlyI)
  fix s l assume "differs s (g (f s)) l"
  then have "differs s (f s) l \<or> differs (f s) (g (f s)) l"
    by (rule differs_trans)
  then show "F l"
    using assms by (auto dest: writes_onlyD)
qed

lemma writes_only_if:
  assumes "writes_only F f" and "writes_only F g"
  shows "writes_only F (\<lambda>s. if b s then f s else g s)"
  using assms by (simp add: writes_only_def)

lemma writes_only_fold:
  assumes "\<And>x. x \<in> set xs \<Longrightarrow> writes_only F (f x)"
  shows "writes_only F (fold f xs)"
  using assms
proof (induction xs)
  case Nil
  then show ?case by (simp add: writes_only_def)
next
  case (Cons x xs)
  have "writes_only F (\<lambda>s. fold f xs (f x s))"
    by (rule writes_only_comp) (simp_all add: Cons)
  then show ?case
    by (simp add: writes_only_def)
qed

lemma writes_only_mono: "writes_only F f \<Longrightarrow> (\<And>l. F l \<Longrightarrow> G l) \<Longrightarrow> writes_only G f"
  by (auto simp: writes_only_def)

lemma differs_update_element:
  "differs s (update_element n f s) l \<Longrightarrow> node_of l = Some n"
  by (cases l) (auto simp: elems_update_element classList_contains_def getAttribute_def split: if_splits)

lemma classList_ops_other [simp]:
  "style (elems (classList_add m d s) n) = style (elems s n)"
  "style (elems (classList_remove m d s) n) = style (elems s n)"
  "style (elems (classList_toggle m d s) n) = style (elems s n)"
  "textContent (elems (classList_add m d s) n) = textContent (elems s n)"
  "textContent (elems (classList_remove m d s) n) = textContent (elems s n)"
  "textContent (elems (classList_toggle m d s) n) = textContent (elems s n)"
  "checked (elems (classList_add m d s) n) = checked (elems s n)"
  "checked (elems (classList_remove m d s) n) = checked (elems s n)"
  "checked (elems (classList_toggle m d s) n) = checked (elems s n)"
  "localStorage (classList_add m d s) = localStorage s"
  "localStorage (classList_remove m d s) = localStorage s"
  "localStorage (classList_toggle m d s) = localStorage s"
  "getAttribute (classList_toggle m d s) n a = getAttribute s n a"
  by (simp_all add: classList_add_def classList_remove_def classList_toggle_def
      getAttribute_def elems_update_element)

lemma writes_classList_add: "writes_only (\<lambda>l. l = ClassToken n c) (classList_add n c)"
proof (rule writes_onlyI)
  fix s l assume "differs s (classList_add n c s) l"
  then show "l = ClassToken n c"
    by (cases l)
(auto simp: contains_add split: if_splits)
qed

lemma writes_classList_remove: "writes_only (\<lambda>l. l = ClassToken n c) (classList_remove n c)"
proof (rule writes_onlyI)
  fix s l assume "differs s (classList_remove n c s) l"
  then show "l = ClassToken n c"
    by (cases l)
(auto simp: contains_remove split: if_splits)
qed

lemma writes_classList_toggle: "writes_only (\<lambda>l. l = ClassToken n c) (classList_toggle n c)"
proof (rule writes_onlyI)
  fix s l assume "differs s (classList_toggle n c s) l"
  then show "l = ClassToken n c"
    by (cases l)
(auto simp: contains_toggle split: if_splits)
qed

lemma writes_set_style: "writes_only (\<lambda>l. l = StyleProperty n p) (set_style n p v)"
proof (rule writes_onlyI)
  fix s l assume "differs s (set_style n p v s) l"
  then show "l = StyleProperty n p"
    by (cases l)
      (auto simp: set_style_def elems_update_element getAttribute_def classList_contains_def
        split: if_splits)
qed

lemma writes_setAttribute: "writes_only (\<lambda>l. l = Attribute n a) (setAttribute n a v)"
proof (rule writes_onlyI)
  fix s l assume "differs s (setAttribute n a v s) l"
  then show "l = Attribute n a"
    by (cases l)
      (auto simp: setAttribute_def elems_update_element getAttribute_def classList_contains_def
        split: if_splits)
qed

lemma writes_set_textContent: "writes_only (\<lambda>l. l = TextContent n) (set_textContent n v)"
proof (rule writes_onlyI)
  fix s l assume "differs s (set_textContent n v s) l"
  then show "l = TextContent n"
    by (cases l)
      (auto simp: set_textContent_def elems_update_element getAttribute_def classList_contains_def
        split: if_splits)
qed

lemma writes_set_checked: "writes_only (\<lambda>l. l = Checked n) (set_checked n v)"
proof (rule writes_onlyI)
  fix s l assume "differs s (set_checked n v s) l"
  then show "l = Checked n"
    by (cases l)
      (auto simp: set_checked_def elems_update_element getAttribute_def classList_contains_def
        split: if_splits)
qed

lemma writes_setItem: "writes_only (\<lambda>l. l = StorageKey k) (setItem k v)"
proof (rule writes_onlyI)
  fix s l assume "differs s (setItem k v s) l"
  then show "l = StorageKey k"
    by (cases l) (auto simp: setItem_def getAttribute_def classList_contains_def split: if_splits)
qed

text \<open>A change of the script's own variables or timers writes no location.\<close>

lemma differs_same_store:
  "elems t = elems s \<Longrightarrow> localStorage t = localStorage s \<Longrightarrow> \<not> differs s t l"
  by (cases l) (simp_all add: classList_contains_def getAttribute_def)

lemma differs_step: "writes_only G g \<Longrightarrow> differs s (g t) l \<Longrightarrow> G l \<or> differs s t l"
  using differs_trans [of s "g t" l t] by (auto simp: writes_only_def)

lemmas differs_add = differs_step [OF writes_classList_add]
  and differs_remove = differs_step [OF writes_classList_remove]
  and differs_toggle = differs_step [OF writes_classList_toggle]
  and differs_set_style = differs_step [OF writes_set_style]
  and differs_setAttribute = differs_step [OF writes_setAttribute]
  and differs_set_textContent = differs_step [OF writes_set_textContent]
  and differs_set_checked = differs_step [OF writes_set_checked]
  and differs_setItem = differs_step [OF writes_setItem]

lemma differs_fields [simp]:
  "differs s (t\<lparr>loadedCount := a\<rparr>) l = differs s t l"
  "differs s (t\<lparr>timeouts := b\<rparr>) l = differs s t l"
  "differs s (t\<lparr>img_listeners := c\<rparr>) l = differs s t l"
  "differs s (t\<lparr>intervals := d\<rparr>) l = differs s t l"
  by (cases l; simp add: classList_contains_def getAttribute_def)+

lemma differs_increment:
  "differs s (increment r t) l \<Longrightarrow> l = StyleProperty (progress r) ''width'' \<or> differs s t l"
  by (auto simp: increment_def Let_def dest!: differs_set_style split: if_splits)

lemma differs_count_images:
  "differs s (fold (count_image r) imgs t) l \<Longrightarrow>
     l = StyleProperty (progress r) ''width'' \<or> differs s t l"
proof (induction imgs arbitrary: t)
  case Nil
  then show ?case by simp
next
  case (Cons img imgs)
  from Cons.IH [of "count_image r img t"] Cons.prems
  show ?case
    by (auto simp: count_image_def dest!: differs_increment split: if_splits)
qed

lemma differs_preloader_init:
  "differs s (preloader_init r s) l \<Longrightarrow> l = StyleProperty (progress r) ''width''"
  by (auto simp: preloader_init_def count_images_def
      dest!: differs_increment differs_count_images differs_set_style split: if_splits)

lemma differs_remove_all:
  "differs s (fold (\<lambda>b. classList_remove b d) ns t) l \<Longrightarrow>
     (\<exists>n\<in>set ns. l = ClassToken n d) \<or> differs s t l"
proof (induction ns arbitrary: t)
  case Nil
  then show ?case by simp
next
  case (Cons n ns)
  from Cons.IH [of "classList_remove n d t"] Cons.prems
  show ?case
    by (auto dest!: differs_remove)
qed

lemma differs_tab_click:
  "differs s (page_after (tabBtn_click r b s)) l \<Longrightarrow>
     \<exists>n. l = ClassToken n ''active'' \<and>
         (n \<in> set (tabBtns r) \<or> n \<in> set (tabPanes r) \<or> n = b \<or> tab_target s b = Some n)"
  by (auto simp: tabBtn_click_cases page_after_def
      dest!: differs_add differs_remove_all split: option.splits)

lemma differs_animateCounters:
  "differs s (fold animateCounter xs t) l \<Longrightarrow> (\<exists>n. l = ClassToken n ''animated'') \<or> differs s t l"
proof (induction xs arbitrary: t)
  case Nil
  then show ?case by simp
next
  case (Cons x xs)
  from Cons.IH [of "animateCounter x t"] Cons.prems
  show ?case
    by (auto simp: animateCounter_def start_counter_def Let_def dest!: differs_add
        split: if_splits)
qed

lemma differs_handleScroll:
  "differs s (handleScroll r s) l \<Longrightarrow>
     l = ClassToken (header r) ''scrolled'' \<or> l = ClassToken (backToTopBtn r) ''active'' \<or>
     (\<exists>n. l = ClassToken n ''animated'')"
  by (auto simp: handleScroll_def animateCounters_def Let_def
      dest!: differs_animateCounters differs_add differs_remove split: if_splits)

lemma differs_fire_interval:
  "differs s (fire_interval i s) l \<Longrightarrow> \<exists>n. l = TextContent n"
  by (auto simp: fire_interval_def counter_tick_def Let_def dest!: differs_set_textContent
      split: if_splits)

lemma highlight_section_cases:
  "highlight_section r x t =
     (case section_lookup r t x of
        Inl e \<Rightarrow> Inl (e, t)
      | Inr None \<Rightarrow> Inr t
      | Inr (Some n) \<Rightarrow>
          Inr (if in_section t x then classList_add n ''active'' t
               else classList_remove n ''active'' t))"
  by (simp add: highlight_section_def section_lookup_def section_id_def in_section_def Let_def
      split: sum.split option.split)

lemma differs_highlight_sections:
  assumes found: "\<forall>t. same_layout s t \<longrightarrow>
         list_all (\<lambda>sec. case section_lookup r t sec of
                            Inl e \<Rightarrow> True
                          | Inr None \<Rightarrow> True
                          | Inr (Some l) \<Rightarrow> l \<in> set (navLinksItems r)) (sections r)"
    and "same_layout s t" and "set secs \<subseteq> set (sections r)"
    and "differs u (page_after (highlight_sections r secs t)) l"
  shows "(\<exists>n\<in>set (navLinksItems r). l = ClassToken n ''active'') \<or> differs u t l"
  using assms(2-)
proof (induction secs arbitrary: t)
  case Nil
  then show ?case by (simp add: page_after_def)
next
  case (Cons x xs)
  have x: "x \<in> set (sections r)" and xs: "set xs \<subseteq> set (sections r)"
    using Cons.prems(2) by simp_all
  have ok: "case section_lookup r t x of Inl e \<Rightarrow> True | Inr None \<Rightarrow> True
            | Inr (Some l) \<Rightarrow> l \<in> set (navLinksItems r)"
    using found Cons.prems(1) x by (simp add: list_all_iff)
  show ?case
  proof (cases "section_lookup r t x")
    case (Inl e)
    then show ?thesis
      using Cons.prems(3) by (simp add: highlight_section_cases page_after_def)
  next
    case (Inr found_link)
    show ?thesis
    proof (cases found_link)
      case None
      then have "highlight_sections r (x # xs) t = highlight_sections r xs t"
        using Inr by (simp add: highlight_section_cases)
      then show ?thesis
        using Cons.IH [OF Cons.prems(1) xs] Cons.prems(3) by simp
    next
      case (Some n)
      let ?t = "if in_section t x then classList_add n ''active'' t
                else classList_remove n ''active'' t"
      have n: "n \<in> set (navLinksItems r)"
        using ok Inr Some by simp
      have lay: "same_layout s ?t"
        using Cons.prems(1) by (simp add: same_layout_add same_layout_remove)
      have "highlight_sections r (x # xs) t = highlight_sections r xs ?t"
        using Inr Some by (simp add: highlight_section_cases)
      then have "(\<exists>n\<in>set (navLinksItems r). l = ClassToken n ''active'') \<or> differs u ?t l"
        using Cons.IH [OF lay xs] Cons.prems(3) by simp
      then show ?thesis
        using n by (auto dest!: differs_add differs_remove split: if_splits)
    qed
  qed
qed

lemma differs_highlightNavLink:
  assumes "lookups_found r s" and "differs s (page_after (highlightNavLink r s)) l"
  shows "\<exists>n\<in>set (navLinksItems r). l = ClassToken n ''active''"
proof -
  have found: "\<forall>t. same_layout s t \<longrightarrow>
         list_all (\<lambda>sec. case section_lookup r t sec of
                            Inl e \<Rightarrow> True
                          | Inr None \<Rightarrow> True
                          | Inr (Some l) \<Rightarrow> l \<in> set (navLinksItems r)) (sections r)"
    using assms(1) by (simp add: lookups_found_def)
  from differs_highlight_sections [OF found same_layout_refl, of "sections r" s l] assms(2)
  show ?thesis
    by (simp add: highlightNavLink_def)
qed

text \<open>
  With the engine as assumed and literal identifiers, the lookups are the literal ones, on
  the page and on every page of the same layout.
\<close>

lemma lookups_found_literal:
  assumes "list_all (\<lambda>b. case tab_target s b of None \<Rightarrow> True | Some p \<Rightarrow> p \<in> set (tabPanes r))
      (tabBtns r)"
    and "selector_engine_ok r"
    and "list_all (\<lambda>sec. css_plain (section_id s sec) \<and>
           (case section_link s sec of None \<Rightarrow> True | Some l \<Rightarrow> l \<in> set (navLinksItems r)))
      (sections r)"
  shows "lookups_found r s"
proof -
  have "case section_lookup r t sec of Inl e \<Rightarrow> True | Inr None \<Rightarrow> True
        | Inr (Some l) \<Rightarrow> l \<in> set (navLinksItems r)"
    if lay: "same_layout s t" and sec: "sec \<in> set (sections r)" for t sec
  proof -
    note st = same_layout_facts [OF lay, of sec]
    have plain: "css_plain (section_id t sec)"
      using assms(3) sec by (simp add: list_all_iff st(3))
    have "section_lookup r t sec = Inr (section_link t sec)"
      using assms(2) plain by (simp add: section_lookup_def selector_engine_ok_def section_link_def)
    then show ?thesis
      using assms(3) sec by (auto simp: list_all_iff st(1) split: option.splits)
  qed
  then show ?thesis
    using assms(1) by (simp add: lookups_found_def list_all_iff)
qed

lemma handler_footprint:
  assumes "lookups_found r s" and "handler_registered r h" and "differs s (run_handler r h s) l"
  shows "footprint r (module_of h) l"
proof (cases h)
  case PreloaderInit
  then show ?thesis
    using assms(3) by (auto dest!: differs_preloader_init)
next
  case (ImageSettled img)
  then show ?thesis
    using assms(3) by (auto simp: image_event_def dest!: differs_increment split: if_splits)
next
  case LoadedTimeout
  then show ?thesis
    using assms(3) by (auto simp: loaded_timeout_def dest!: differs_set_style differs_add)
next
  case MenuButtonClick
  then show ?thesis
    using assms(3) by (auto simp: mobileMenuBtn_click_def dest!: differs_toggle)
next
  case NavLinkClick
  then show ?thesis
    using assms(3) by (auto simp: navLink_click_def dest!: differs_remove)
next
  case ThemeInit
  then show ?thesis
    using assms(3)
    by (auto simp: themeSwitcher_init_def dest!: differs_set_checked differs_setAttribute)
next
  case ThemeChange
  then show ?thesis
    using assms(3)
    by (auto simp: toggleTheme_def Let_def dest!: differs_setItem differs_setAttribute)
next
  case Scroll
  then show ?thesis
    using assms(3) by (auto dest!: differs_handleScroll)
next
  case (IntervalTick i)
  then show ?thesis
    using assms(3) by (auto dest!: differs_fire_interval)
next
  case (TabClick b)
  then have b: "b \<in> set (tabBtns r)"
    using assms(2) by simp
  from TabClick assms(3) obtain n where n: "l = ClassToken n ''active''"
    "n \<in> set (tabBtns r) \<or> n \<in> set (tabPanes r) \<or> n = b \<or> tab_target s b = Some n"
    by (auto dest!: differs_tab_click)
  have "tab_target s b = Some n \<Longrightarrow> n \<in> set (tabPanes r)"
    using assms(1) b by (auto simp: lookups_found_def list_all_iff split: option.splits)
  then show ?thesis
    using TabClick n b by auto
next
  case HighlightNav
  then have "differs s (page_after (highlightNavLink r s)) l"
    using assms(3) by simp
  from differs_highlightNavLink [OF assms(1) this] show ?thesis
    using HighlightNav by auto
qed

lemma footprints_disjoint:
  assumes "active_apart r" and "m \<noteq> m'" and "footprint r m l"
  shows "\<not> footprint r m' l"
  using assms
  by (cases m; cases m') (auto simp: active_apart_def Let_def)

text \<open>
  Claim C8, as amended. Let the elements that receive \<^verbatim>\<open>active\<close> from different modules be
  different elements, and let the lookups of the tab and navigation handlers find elements of
  the expected kind. Then no location (a class token, a style property, an attribute, the
  text or the checked state of a node, or a storage key) is changed by handlers of two
  different modules, whatever the pages they run on.
\<close>

theorem footprints_apart:
  assumes "active_apart r"
    and "lookups_found r s" and "handler_registered r g"
    and "lookups_found r t" and "handler_registered r h"
    and "module_of g \<noteq> module_of h"
    and "differs s (run_handler r g s) l"
  shows "\<not> differs t (run_handler r h t) l"
proof
  assume "differs t (run_handler r h t) l"
  then have "footprint r (module_of h) l"
    using assms(4,5) by (rule handler_footprint [rotated 2])
  moreover have "footprint r (module_of g) l"
    using assms(2,3,7) by (rule handler_footprint)
  ultimately show False
    using footprints_disjoint [OF assms(1,6)] by blast
qed

theorem footprints_apart_witness:
  "active_apart sample_refs \<and>
   lookups_found sample_refs sample_page \<and> handler_registered sample_refs (TabClick 12) \<and>
   lookups_found sample_refs (sample_page\<lparr>scrollY := 900\<rparr>) \<and>
   handler_registered sample_refs HighlightNav \<and>
   module_of (TabClick 12) \<noteq> module_of HighlightNav \<and>
   differs sample_page (run_handler sample_refs (TabClick 12) sample_page) (ClassToken 12 ''active'') \<and>
   \<not> differs (sample_page\<lparr>scrollY := 900\<rparr>)
       (run_handler sample_refs HighlightNav (sample_page\<lparr>scrollY := 900\<rparr>))
       (ClassToken 12 ''active'') \<and>
   differs (sample_page\<lparr>scrollY := 900\<rparr>)
       (run_handler sample_refs HighlightNav (sample_page\<lparr>scrollY := 900\<rparr>))
       (ClassToken 8 ''active'')"
proof -
  have apart: "active_apart sample_refs"
    by code_simp
  have tabs: "list_all (\<lambda>b. case tab_target sample_page b of None \<Rightarrow> True
        | Some p \<Rightarrow> p \<in> set (tabPanes sample_refs)) (tabBtns sample_refs)"
    "list_all (\<lambda>b. case tab_target (sample_page\<lparr>scrollY := 900\<rparr>) b of None \<Rightarrow> True
        | Some p \<Rightarrow> p \<in> set (tabPanes sample_refs)) (tabBtns sample_refs)"
    by code_simp+
  have links: "list_all (\<lambda>sec. css_plain (section_id sample_page sec) \<and>
        (case section_link sample_page sec of None \<Rightarrow> True
         | Some l \<Rightarrow> l \<in> set (navLinksItems sample_refs))) (sections sample_refs)"
    "list_all (\<lambda>sec. css_plain (section_id (sample_page\<lparr>scrollY := 900\<rparr>) sec) \<and>
        (case section_link (sample_page\<lparr>scrollY := 900\<rparr>) sec of None \<Rightarrow> True
         | Some l \<Rightarrow> l \<in> set (navLinksItems sample_refs))) (sections sample_refs)"
    by code_simp+
  have found: "lookups_found sample_refs sample_page"
    "lookups_found sample_refs (sample_page\<lparr>scrollY := 900\<rparr>)"
    by (rule lookups_found_literal [OF tabs(1) sample_engine_ok links(1)])
      (rule lookups_found_literal [OF tabs(2) sample_engine_ok links(2)])
  have reg: "handler_registered sample_refs (TabClick 12)"
    "handler_registered sample_refs HighlightNav"
    by code_simp+
  have mods: "module_of (TabClick 12) \<noteq> module_of HighlightNav"
    by simp
  have tab: "differs sample_page (run_handler sample_refs (TabClick 12) sample_page)
      (ClassToken 12 ''active'')"
    by code_simp
  have nav: "differs (sample_page\<lparr>scrollY := 900\<rparr>)
       (run_handler sample_refs HighlightNav (sample_page\<lparr>scrollY := 900\<rparr>))
       (ClassToken 8 ''active'')"
    by code_simp
  note kept = footprints_apart [OF apart found(1) reg(1) found(2) reg(2) mods tab]
  show ?thesis
    by (intro conjI apart found reg mods tab kept nav)
qed

text \<open>
  The claim as it was stated, for nodes: on the sample page the timeout callback of the
  preloader and the click listener of the mobile menu, handlers of two different modules,
  both write the node \<^verbatim>\<open>document.body\<close>, the first its inline \<^verbatim>\<open>overflow\<close> style and the
  second its class \<^verbatim>\<open>menu-open\<close>.
\<close>

theorem body_written_by_two_modules_counterexample:
  "module_of LoadedTimeout \<noteq> module_of MenuButtonClick \<and>
   differs sample_page (run_handler sample_refs LoadedTimeout sample_page)
     (StyleProperty (body sample_refs) ''overflow'') \<and>
   differs sample_page (run_handler sample_refs MenuButtonClick sample_page)
     (ClassToken (body sample_refs) ''menu-open'') \<and>
   node_of (StyleProperty (body sample_refs) ''overflow'') = Some (body sample_refs) \<and>
   node_of (ClassToken (body sample_refs) ''menu-open'') = Some (body sample_refs)"
proof -
  have style_written: "differs sample_page (run_handler sample_refs LoadedTimeout sample_page)
     (StyleProperty (body sample_refs) ''overflow'')"
    by code_simp
  have class_written: "differs sample_page (run_handler sample_refs MenuButtonClick sample_page)
     (ClassToken (body sample_refs) ''menu-open'')"
    by code_simp
  show ?thesis
    using style_written class_written by simp
qed

end
